theory Spec2Isabelle
  imports Complex_Main "HOL-Library.Word"
begin

section \<open>Audio capture: \<open>AudioRecorder\<close>\<close>

text \<open>
  The recorder of \<open>audio/audioRecorder.ts\<close>. Samples are the finite values of a
  \<open>Float32Array\<close>, each a real number. The arithmetic of the PCM conversion is exact on
  them (a 24-bit mantissa times a 15-bit or 16-bit constant fits a double). The analysis
  computes in double precision: every product, sum, quotient and square root is rounded to
  the nearest double, as written out below. \<open>NaN\<close> samples and an empty frame (whose RMS
  is \<open>NaN\<close> in the source, \<open>0 / 0\<close>) are outside the model: the script processor is
  created with a buffer of 4096 samples.
\<close>

datatype AudioAnalysisStatus = speech | music_noise | silence | unknown

text \<open>
  Notifications the recorder sends through the callbacks given to its constructor
  (\<open>onVolumeChange\<close>, \<open>onStatusChange\<close>, \<open>onDataAvailable\<close>), in the order of the calls.
\<close>

datatype callback =
    VolumeChange int
  | StatusChange AudioAnalysisStatus
  | DataAvailable "16 word list"

text \<open>
  What the code does to the platform: media streams, the audio graph, the socket, timers and
  the clipboard. Platform objects are named by a number.
\<close>

datatype effect =
    OpenStream nat
  | TrackStop nat
  | ProcessorDisconnect nat
  | InputDisconnect nat
  | ContextClose nat
  | SocketCreate nat
  | SocketSendAudio "16 word list"
  | SocketSendCloseStream
  | SocketClose
  | SetInterval nat
  | ClearInterval nat
  | CopyToClipboard string

record AudioRecorder =
  mediaStream :: "nat option"
  audioContext :: "nat option"
  processor :: "nat option"
  input :: "nat option"
  analyser :: "nat option"
  source :: "nat option"
  hasOnStatusChange :: bool
  hasOnVolumeChange :: bool
  debugCounter :: nat
  lastStatus :: AudioAnalysisStatus

subsection \<open>Double-precision arithmetic\<close>

text \<open>
  A JavaScript number is an IEEE 754 double: 53 significant bits, results rounded to the
  nearest double, a tie to the one with even significand. \<open>rne\<close> rounds a real to the
  nearest integer that way; \<open>fl x\<close> is the double nearest to \<open>x\<close>: with
  \<open>2 ^ e \<le> \<bar>x\<bar> < 2 ^ (e + 1)\<close> the doubles around \<open>x\<close> are the multiples of
  \<open>2 ^ (e - 52)\<close>. The exponent is not bounded here: the squares of Float32 samples, their
  sums over a frame and the values derived from them stay far inside the range of normal
  doubles, so neither overflow nor gradual underflow occurs in the analysis.
\<close>

definition rne :: "real \<Rightarrow> int" where
  "rne x =
     (let f = \<lfloor>x\<rfloor>; d = x - of_int f
      in if d < 1 / 2 then f else if 1 / 2 < d then f + 1 else if even f then f else f + 1)"

definition fl :: "real \<Rightarrow> real" where
  "fl x =
     (if x = 0 then 0
      else let u = 2 powi (\<lfloor>log 2 \<bar>x\<bar>\<rfloor> - 52)
           in sgn x * of_int (rne (\<bar>x\<bar> / u)) * u)"

text \<open>
  The analysis configuration: private fields with fixed initial values. The literal
  \<open>0.005\<close> denotes the double nearest to it.
\<close>

definition silenceThreshold :: real where
  "silenceThreshold = fl (5 / 1000)"

text \<open>
  \<open>new AudioRecorder(onDataAvailable, onSilenceTimeout, onStatusChange?, onVolumeChange?)\<close>:
  the two optional callbacks are kept or replaced by \<open>null\<close>.
\<close>

definition newAudioRecorder :: "bool \<Rightarrow> bool \<Rightarrow> AudioRecorder" where
  "newAudioRecorder onStatusChange onVolumeChange =
     \<lparr> mediaStream = None, audioContext = None, processor = None, input = None,
       analyser = None, source = None,
       hasOnStatusChange = onStatusChange, hasOnVolumeChange = onVolumeChange,
       debugCounter = 0, lastStatus = unknown \<rparr>"

subsection \<open>\<open>stop\<close>\<close>

text \<open>
  Each of the four handles is released and cleared when it is set; \<open>analyser\<close> and
  \<open>source\<close> are left as they are.
\<close>

definition stop :: "AudioRecorder \<Rightarrow> effect list \<times> AudioRecorder" where
  "stop r =
     ((case mediaStream r of None \<Rightarrow> [] | Some h \<Rightarrow> [TrackStop h]) @
      (case processor r of None \<Rightarrow> [] | Some h \<Rightarrow> [ProcessorDisconnect h]) @
      (case input r of None \<Rightarrow> [] | Some h \<Rightarrow> [InputDisconnect h]) @
      (case audioContext r of None \<Rightarrow> [] | Some h \<Rightarrow> [ContextClose h]),
      r\<lparr>mediaStream := None, processor := None, input := None, audioContext := None\<rparr>)"

subsection \<open>\<open>start\<close>\<close>

text \<open>
  What the platform answers to \<open>start\<close>: \<open>getUserMedia\<close> rejects (permission denied,
  device missing), or it delivers a stream and the audio graph is built on a new context,
  whose \<open>resume\<close> then rejects or succeeds with the context's sample rate.
\<close>

datatype capture =
    GetUserMediaRejected string
  | ResumeRejected nat nat string
  | CaptureStarted nat nat nat

text \<open>
  \<open>start\<close> stops a capture that is still held, then opens the new one. The result is the
  thrown error's message or the sample rate.
\<close>

definition start :: "capture \<Rightarrow> AudioRecorder \<Rightarrow> (string + nat) \<times> effect list \<times> AudioRecorder" where
  "start env r =
     (let (fx0, r0) = (if mediaStream r \<noteq> None then stop r else ([], r)) in
      case env of
        GetUserMediaRejected msg \<Rightarrow> (Inl msg, fx0, r0)
      | ResumeRejected strm ctx msg \<Rightarrow>
          (Inl msg, fx0 @ [OpenStream strm],
           r0\<lparr>mediaStream := Some strm, audioContext := Some ctx, source := Some ctx,
              analyser := Some ctx, processor := Some ctx\<rparr>)
      | CaptureStarted strm ctx rate \<Rightarrow>
          (Inr rate, fx0 @ [OpenStream strm],
           r0\<lparr>mediaStream := Some strm, audioContext := Some ctx, source := Some ctx,
              analyser := Some ctx, processor := Some ctx\<rparr>))"

subsection \<open>\<open>floatTo16BitPCM\<close>\<close>

text \<open>
  Storing a number into an \<open>Int16Array\<close> converts it with \<open>ToInt16\<close>: the fraction is
  dropped (truncation towards zero) and the integer is taken modulo \<open>2 ^ 16\<close> into the signed
  range, which is what \<open>word_of_int\<close> and \<open>sint\<close> do on a 16-bit word.
\<close>

definition truncate_js :: "real \<Rightarrow> int" where
  "truncate_js x = (if x < 0 then \<lceil>x\<rceil> else \<lfloor>x\<rfloor>)"

definition toInt16 :: "real \<Rightarrow> 16 word" where
  "toInt16 x = word_of_int (truncate_js x)"

text \<open>The body of the loop, for one sample \<open>input[i]\<close>.\<close>

definition pcmSample :: "real \<Rightarrow> 16 word" where
  "pcmSample x =
     (let s = max (- 1) (min 1 x)
      in toInt16 (if s < 0 then s * 0x8000 else s * 0x7FFF))"

fun floatTo16BitPCM :: "real list \<Rightarrow> 16 word list" where
  "floatTo16BitPCM [] = []"
| "floatTo16BitPCM (x # xs) = pcmSample x # floatTo16BitPCM xs"

subsection \<open>\<open>analyzeAudio\<close>\<close>

text \<open>
  The first loop: \<open>sumSquares += inputData[i] * inputData[i]\<close>, the product and the sum
  each rounded to a double, in the order of the samples.
\<close>

fun sumSquares :: "real list \<Rightarrow> real \<Rightarrow> real" where
  "sumSquares [] acc = acc"
| "sumSquares (x # xs) acc = sumSquares xs (fl (acc + fl (x * x)))"

text \<open>\<open>Math.sqrt(sumSquares / inputData.length)\<close>; the square root is correctly rounded.\<close>

definition rms :: "real list \<Rightarrow> real" where
  "rms inputData = fl (sqrt (fl (sumSquares inputData 0 / real (length inputData))))"

text \<open>
  \<open>Math.min(100, Math.round(rms * 400))\<close>: the product is a double, and \<open>Math.round\<close>
  rounds it to the nearest integer, a half up, as \<open>round\<close> does:
  \<open>round x = \<lfloor>x + 1 / 2\<rfloor>\<close>.
\<close>

definition vol :: "real \<Rightarrow> int" where
  "vol r = min 100 (round (fl (r * 400)))"

text \<open>
  The spectral loop over the analyser's byte snapshot, from bin \<open>i\<close> on:
  \<open>weightedSum += i * dataArray[i]; totalWeight += dataArray[i]\<close>. Both sums are
  integers far below \<open>2 ^ 53\<close> for the 256 bins of the analyser, so they are exact.
\<close>

fun spectrumSums :: "nat \<Rightarrow> 8 word list \<Rightarrow> nat \<times> nat \<Rightarrow> nat \<times> nat" where
  "spectrumSums i [] acc = acc"
| "spectrumSums i (d # ds) (weightedSum, totalWeight) =
     spectrumSums (i + 1) ds (weightedSum + i * unat d, totalWeight + unat d)"

definition centroid :: "8 word list \<Rightarrow> real" where
  "centroid dataArray =
     (let (weightedSum, totalWeight) = spectrumSums 0 dataArray (0, 0)
      in if totalWeight > 0 then fl (real weightedSum / real totalWeight) else 0)"

text \<open>The zero-crossing loop compares each sample with the one before it.\<close>

fun zcr :: "real list \<Rightarrow> nat \<Rightarrow> nat" where
  "zcr (prev # cur # rest) n =
     zcr (cur # rest) (if (cur \<ge> 0 \<and> prev < 0) \<or> (cur < 0 \<and> prev \<ge> 0) then n + 1 else n)"
| "zcr _ n = n"

definition zcrRatio :: "real list \<Rightarrow> real" where
  "zcrRatio inputData = fl (real (zcr inputData 0) / real (length inputData))"

text \<open>
  \<open>analyzeAudio\<close> takes the frame and the snapshot that \<open>getByteFrequencyData\<close> fills in
  at this call. It returns the label, the volume notification and the recorder with its
  diagnostic fields updated. The console output is left out.
\<close>

definition analyzeAudio ::
  "real list \<Rightarrow> 8 word list \<Rightarrow> AudioRecorder \<Rightarrow> AudioAnalysisStatus \<times> callback list \<times> AudioRecorder" where
  "analyzeAudio inputData dataArray r =
     (let emitted = (if hasOnVolumeChange r then [VolumeChange (vol (rms inputData))] else [])
      in if rms inputData < silenceThreshold then (silence, emitted, r)
         else if analyser r \<noteq> None then
           (let r1 = r\<lparr>debugCounter := debugCounter r + 1\<rparr>
            in if centroid dataArray > 60 \<and> zcrRatio inputData > fl (3 / 10)
               then (music_noise, emitted, r1\<lparr>lastStatus := music_noise\<rparr>)
               else (speech, emitted, r1\<lparr>lastStatus := speech\<rparr>))
         else (speech, emitted, r\<lparr>lastStatus := speech\<rparr>))"

text \<open>The handler installed on the script processor, run once per frame.\<close>

definition onaudioprocess ::
  "real list \<Rightarrow> 8 word list \<Rightarrow> AudioRecorder \<Rightarrow> callback list \<times> AudioRecorder" where
  "onaudioprocess inputData dataArray r =
     (let (status, emitted, r1) = analyzeAudio inputData dataArray r
      in (emitted @ (if hasOnStatusChange r1 then [StatusChange status] else []) @
          [DataAvailable (floatTo16BitPCM inputData)], r1))"

section \<open>Strings\<close>

text \<open>
  A JavaScript string is a sequence of UTF-16 code units. The model takes the code units
  below 256, one \<open>char\<close> each, which covers ASCII and Latin-1 text; the white space of
  \<open>trim\<close> and of the regular expression \<open>\s\<close> in that range is tab, line feed,
  vertical tab, form feed, carriage return, space and no-break space.
\<close>

definition isWhiteSpace :: "char \<Rightarrow> bool" where
  "isWhiteSpace c = (of_char c \<in> {9, 10, 11, 12, 13, 32, 160 :: nat})"

definition trim :: "string \<Rightarrow> string" where
  "trim s = rev (dropWhile isWhiteSpace (rev (dropWhile isWhiteSpace s)))"

text \<open>
  \<open>s.split(/\s+/)\<close>: the pieces between maximal runs of white space, an empty piece
  before a leading run and after a trailing one, and the one piece \<open>""\<close> for the empty
  string. The first argument is the piece being read.
\<close>

function split_ws :: "string \<Rightarrow> string \<Rightarrow> string list" where
  "split_ws cur [] = [cur]"
| "split_ws cur (c # cs) =
     (if isWhiteSpace c then cur # split_ws [] (dropWhile isWhiteSpace cs)
      else split_ws (cur @ [c]) cs)"
  by pat_completeness auto
termination
  by (relation "measure (\<lambda>(cur, s). length s)")
     (auto simp: le_imp_less_Suc length_dropWhile_le)

text \<open>\<open>fullText.trim().split(/\s+/).filter(w => w.length > 0).length\<close>\<close>

definition countWords :: "string \<Rightarrow> nat" where
  "countWords fullText = length (filter (\<lambda>w. length w > 0) (split_ws [] (trim fullText)))"

text \<open>
  \<open>toLowerCase\<close> on the code units below 256: the letters A to Z and the Latin-1 capitals
  (\<open>0xC0\<close> to \<open>0xDE\<close> without the multiplication sign) move up by 32.
\<close>

definition toLowerCase_char :: "char \<Rightarrow> char" where
  "toLowerCase_char c =
     (let n = of_char c :: nat
      in if (65 \<le> n \<and> n \<le> 90) \<or> (192 \<le> n \<and> n \<le> 222 \<and> n \<noteq> 215)
         then char_of (n + 32) else c)"

definition toLowerCase :: "string \<Rightarrow> string" where
  "toLowerCase s = map toLowerCase_char s"

text \<open>\<open>s.includes(pat)\<close>: \<open>pat\<close> occurs in \<open>s\<close> at some position.\<close>

fun includes_str :: "string \<Rightarrow> string \<Rightarrow> bool" where
  "includes_str [] pat = (pat = [])"
| "includes_str (c # cs) pat = (take (length pat) (c # cs) = pat \<or> includes_str cs pat)"

text \<open>\<open>n.toString()\<close> of an integer: its decimal numeral.\<close>

fun digits :: "nat \<Rightarrow> string" where
  "digits n =
     (if n < 10 then [char_of (48 + n)] else digits (n div 10) @ [char_of (48 + n mod 10)])"

definition toString :: "int \<Rightarrow> string" where
  "toString n = (if n < 0 then CHR ''-'' # digits (nat (- n)) else digits (nat n))"

section \<open>Transcription client: \<open>DeepgramService\<close>\<close>

datatype readyState = CONNECTING | OPEN | CLOSING | CLOSED

text \<open>The socket field holds \<open>null\<close> or a socket, of which the model keeps the state.\<close>

record DeepgramService =
  socket :: "readyState option"
  apiKey :: string

definition newDeepgramService :: "string \<Rightarrow> DeepgramService" where
  "newDeepgramService key = \<lparr> socket = None, apiKey = key \<rparr>"

text \<open>
  How the handshake of \<open>connect\<close> ends: the \<open>WebSocket\<close> constructor throws, the socket
  reports an error (it is closed by then), or it opens.
\<close>

datatype handshake = ConstructorThrows string | SocketErrors | SocketOpens

text \<open>
  \<open>connect\<close> rejects with a message or resolves. The second component is the platform
  effect, the third the messages passed to the \<open>onError\<close> callback.
\<close>

definition connect ::
  "nat \<Rightarrow> handshake \<Rightarrow> DeepgramService \<Rightarrow> (string + unit) \<times> effect list \<times> string list \<times> DeepgramService" where
  "connect sampleRate env d =
     (if apiKey d = [] then (Inl ''Missing Deepgram API Key'', [], [], d)
      else case env of
        ConstructorThrows msg \<Rightarrow> (Inl msg, [], [], d)
      | SocketErrors \<Rightarrow>
          (Inl ''WebSocket connection failed'', [SocketCreate sampleRate],
           [''WebSocket connection error''], d\<lparr>socket := Some CLOSED\<rparr>)
      | SocketOpens \<Rightarrow> (Inr (), [SocketCreate sampleRate], [], d\<lparr>socket := Some OPEN\<rparr>))"

definition isConnected :: "DeepgramService \<Rightarrow> bool" where
  "isConnected d = (socket d \<noteq> None \<and> socket d = Some OPEN)"

definition sendAudio :: "16 word list \<Rightarrow> DeepgramService \<Rightarrow> effect list" where
  "sendAudio data d = (if socket d \<noteq> None \<and> socket d = Some OPEN then [SocketSendAudio data] else [])"

definition disconnect :: "DeepgramService \<Rightarrow> effect list \<times> DeepgramService" where
  "disconnect d =
     (case socket d of
        None \<Rightarrow> ([], d)
      | Some st \<Rightarrow>
          ((if st = OPEN then [SocketSendCloseStream, SocketClose] else []), d\<lparr>socket := None\<rparr>))"

subsection \<open>Inbound messages\<close>

text \<open>
  The value \<open>JSON.parse\<close> returns. An object keeps its members in the order of the text;
  of two members with one name the later one is read.
\<close>

datatype json =
    JNull
  | JBool bool
  | JNumber rat
  | JString string
  | JArray "json list"
  | JObject "(string \<times> json) list"

text \<open>The text of a message parses to a value, or \<open>JSON.parse\<close> throws.\<close>

datatype inbound = Unparseable | Parsed json

fun truthy :: "json \<Rightarrow> bool" where
  "truthy JNull = False"
| "truthy (JBool b) = b"
| "truthy (JNumber n) = (n \<noteq> 0)"
| "truthy (JString s) = (s \<noteq> [])"
| "truthy (JArray xs) = True"
| "truthy (JObject kvs) = True"

text \<open>
  Reading one of the member names the handler uses (\<open>channel\<close>, \<open>alternatives\<close>,
  \<open>transcript\<close>, \<open>is_final\<close>) from a value that is not \<open>null\<close>: only an object has
  such a member, \<open>None\<close> is \<open>undefined\<close>.
\<close>

fun readMember :: "string \<Rightarrow> json \<Rightarrow> json option" where
  "readMember k (JObject kvs) = map_of (rev kvs) k"
| "readMember k v = None"

text \<open>Reading index \<open>0\<close>: of an array, of a string (its first code unit), of an object.\<close>

fun index0 :: "json \<Rightarrow> json option" where
  "index0 (JArray []) = None"
| "index0 (JArray (x # xs)) = Some x"
| "index0 (JString []) = None"
| "index0 (JString (c # cs)) = Some (JString [c])"
| "index0 (JObject kvs) = map_of (rev kvs) ''0''"
| "index0 v = None"

text \<open>
  What the \<open>onmessage\<close> handler does with a message: nothing (also when parsing or a member
  access throws, which is logged), or one call of \<open>onTranscript\<close>. \<open>IllTyped\<close> is a call
  with a transcript that is not a string, which the callback's type excludes; what the
  callback does with it is not modelled. The flag is read by the callback as a condition
  only, so the model passes whether \<open>data.is_final\<close> is truthy.
\<close>

datatype delivery = NoCallback | Transcript string bool | IllTyped

definition isTruthy :: "json option \<Rightarrow> bool" where
  "isTruthy v = (case v of None \<Rightarrow> False | Some j \<Rightarrow> truthy j)"

definition onmessage :: "inbound \<Rightarrow> delivery" where
  "onmessage message =
     (case message of
        Unparseable \<Rightarrow> NoCallback
      | Parsed JNull \<Rightarrow> NoCallback
      | Parsed data \<Rightarrow>
          (case readMember ''channel'' data of
             None \<Rightarrow> NoCallback
           | Some channel \<Rightarrow>
               (if \<not> truthy channel then NoCallback
                else (case readMember ''alternatives'' channel of
                  None \<Rightarrow> NoCallback
                | Some alternatives \<Rightarrow>
                    (if \<not> truthy alternatives then NoCallback
                     else (case index0 alternatives of
                       None \<Rightarrow> NoCallback
                     | Some alt \<Rightarrow>
                         (if \<not> truthy alt then NoCallback
                          else (case readMember ''transcript'' alt of
                            None \<Rightarrow> NoCallback
                          | Some (JString t) \<Rightarrow>
                              (if t = [] then NoCallback
                               else Transcript t (isTruthy (readMember ''is_final'' data)))
                          | Some v \<Rightarrow> (if truthy v then IllTyped else NoCallback)))))))))"

section \<open>Session controller: \<open>usePushToTalk\<close>\<close>

datatype ConnectionState = disconnected | connecting | connected

text \<open>
  The fields of \<open>SessionRecord\<close> are \<open>id\<close>, \<open>timestamp\<close>, \<open>text\<close>, \<open>duration\<close> and
  \<open>wordCount\<close>; they carry a prefix here, three of the names being taken.
\<close>

record SessionRecord =
  rec_id :: string
  rec_timestamp :: int
  rec_text :: string
  rec_duration :: real
  rec_wordCount :: nat

record PushToTalkState =
  isRecording :: bool
  transcript :: string
  interimTranscript :: string
  error :: "string option"
  connectionState :: ConnectionState
  autoInsert :: bool
  history :: "SessionRecord list"
  statusMessage :: "string option"
  audioStatus :: AudioAnalysisStatus
  sessionDuration :: int
  wordCount :: nat
  charCount :: nat
  volume :: int

text \<open>
  The hook's state: the React state and the refs. \<open>apiKeyProp\<close> is the \<open>apiKey\<close> the hook
  is called with. The device list and the selected device only choose the microphone and
  are left out.
\<close>

record Controller =
  state :: PushToTalkState
  recorderRef :: "AudioRecorder option"
  deepgramRef :: "DeepgramService option"
  startTimeRef :: int
  timerIntervalRef :: "nat option"
  apiKeyProp :: string

definition usePushToTalk :: "string \<Rightarrow> Controller" where
  "usePushToTalk key =
     \<lparr> state = \<lparr> isRecording = False, transcript = [], interimTranscript = [], error = None,
                 connectionState = disconnected, autoInsert = False, history = [],
                 statusMessage = None, audioStatus = silence, sessionDuration = 0,
                 wordCount = 0, charCount = 0, volume = 0 \<rparr>,
       recorderRef = None, deepgramRef = None, startTimeRef = 0, timerIntervalRef = None,
       apiKeyProp = key \<rparr>"

text \<open>
  A run of controller code: the React states produced so far, one for each \<open>setState\<close> in
  the order the updaters are applied, the platform effects so far, and the controller.
\<close>

type_synonym run = "PushToTalkState list \<times> effect list \<times> Controller"

definition setState :: "(PushToTalkState \<Rightarrow> PushToTalkState) \<Rightarrow> run \<Rightarrow> run" where
  "setState f = (\<lambda>(tr, fx, c). (tr @ [f (state c)], fx, c\<lparr>state := f (state c)\<rparr>))"

definition perform :: "effect list \<Rightarrow> run \<Rightarrow> run" where
  "perform es = (\<lambda>(tr, fx, c). (tr, fx @ es, c))"

text \<open>\<open>if (timerIntervalRef.current) clearInterval(timerIntervalRef.current)\<close>\<close>

definition clearTimer :: "run \<Rightarrow> run" where
  "clearTimer = (\<lambda>(tr, fx, c).
     case timerIntervalRef c of
       None \<Rightarrow> (tr, fx, c)
     | Some i \<Rightarrow> if i = 0 then (tr, fx, c) else (tr, fx @ [ClearInterval i], c))"

subsection \<open>\<open>getServices\<close>\<close>

text \<open>Both services are created on first use, the recorder with all four callbacks.\<close>

definition getServices :: "Controller \<Rightarrow> AudioRecorder \<times> DeepgramService \<times> Controller" where
  "getServices c =
     (let deepgram = (case deepgramRef c of None \<Rightarrow> newDeepgramService (apiKeyProp c) | Some d \<Rightarrow> d);
          recorder = (case recorderRef c of None \<Rightarrow> newAudioRecorder True True | Some r \<Rightarrow> r)
      in (recorder, deepgram, c\<lparr>deepgramRef := Some deepgram, recorderRef := Some recorder\<rparr>))"

subsection \<open>The transcript callback\<close>

text \<open>The updater of the first \<open>setState\<close> of the callback given to \<open>DeepgramService\<close>.\<close>

definition transcriptUpdate :: "string \<Rightarrow> bool \<Rightarrow> PushToTalkState \<Rightarrow> PushToTalkState" where
  "transcriptUpdate text isFinal prev =
     (let newTranscript =
            (if isFinal then (if transcript prev \<noteq> [] then transcript prev @ '' '' @ text else text)
             else transcript prev);
          fullText = (if isFinal then newTranscript else newTranscript @ '' '' @ text);
          words = countWords fullText;
          chars = length fullText
      in if isFinal
         then prev\<lparr>transcript := newTranscript, interimTranscript := [],
                   wordCount := words, charCount := chars\<rparr>
         else prev\<lparr>interimTranscript := text, wordCount := words, charCount := chars\<rparr>)"

text \<open>The voice commands, looked for in \<open>text.toLowerCase().trim()\<close>.\<close>

definition isClearCommand :: "string \<Rightarrow> bool" where
  "isClearCommand text =
     (let lower = trim (toLowerCase text)
      in includes_str lower ''clear transcript'' \<or> includes_str lower ''delete everything'')"

definition onTranscript :: "string \<Rightarrow> bool \<Rightarrow> run \<Rightarrow> run" where
  "onTranscript text isFinal r =
     (let r1 = setState (transcriptUpdate text isFinal) r
      in if isFinal \<and> isClearCommand text
         then setState (\<lambda>prev. prev\<lparr>transcript := [], interimTranscript := [],
                                   wordCount := 0, charCount := 0\<rparr>) r1
         else r1)"

text \<open>The error callback given to \<open>DeepgramService\<close>, once for each message.\<close>

fun onError :: "string list \<Rightarrow> run \<Rightarrow> run" where
  "onError [] r = r"
| "onError (err # errs) r = onError errs (setState (\<lambda>prev. prev\<lparr>error := Some err\<rparr>) r)"

text \<open>
  A message arriving on the socket, through \<open>onmessage\<close> into the callback. \<open>None\<close> where
  the callback would get a transcript that is not a string.
\<close>

definition receive :: "inbound \<Rightarrow> Controller \<Rightarrow> run option" where
  "receive message c =
     (case onmessage message of
        NoCallback \<Rightarrow> Some ([], [], c)
      | Transcript text isFinal \<Rightarrow> Some (onTranscript text isFinal ([], [], c))
      | IllTyped \<Rightarrow> None)"

subsection \<open>The recorder's callbacks\<close>

text \<open>
  Audio data goes to the socket when it is open; status and volume go into the state. The
  silence callback is never called by the recorder.
\<close>

fun notify :: "callback \<Rightarrow> run \<Rightarrow> run" where
  "notify (VolumeChange v) r = setState (\<lambda>prev. prev\<lparr>volume := v\<rparr>) r"
| "notify (StatusChange st) r = setState (\<lambda>prev. prev\<lparr>audioStatus := st\<rparr>) r"
| "notify (DataAvailable data) (tr, fx, c) =
     (case deepgramRef c of
        None \<Rightarrow> (tr, fx, c)
      | Some d \<Rightarrow> if isConnected d then (tr, fx @ sendAudio data d, c) else (tr, fx, c))"

fun notifyAll :: "callback list \<Rightarrow> run \<Rightarrow> run" where
  "notifyAll [] r = r"
| "notifyAll (cb # cbs) r = notifyAll cbs (notify cb r)"

text \<open>A frame delivered by the script processor, when the recorder has one.\<close>

definition frame :: "real list \<Rightarrow> 8 word list \<Rightarrow> Controller \<Rightarrow> run" where
  "frame inputData dataArray c =
     (case recorderRef c of
        None \<Rightarrow> ([], [], c)
      | Some r \<Rightarrow>
          (case processor r of
             None \<Rightarrow> ([], [], c)
           | Some h \<Rightarrow>
               (let (cbs, r1) = onaudioprocess inputData dataArray r
                in notifyAll cbs ([], [], c\<lparr>recorderRef := Some r1\<rparr>))))"

subsection \<open>\<open>startRecording\<close>\<close>

text \<open>
  What the platform supplies to one call: the clock, the handle of the new interval timer,
  and how the capture and the handshake end.
\<close>

record startEnv =
  now :: int
  timerId :: nat
  captureOutcome :: capture
  handshakeOutcome :: handshake

text \<open>The \<open>catch\<close> block: \<open>err.message || 'Failed to start recording'\<close>.\<close>

definition catchStart :: "string \<Rightarrow> run \<Rightarrow> run" where
  "catchStart message r =
     clearTimer
       (setState (\<lambda>prev. prev\<lparr>isRecording := False, connectionState := disconnected,
                    error := Some (if message \<noteq> [] then message else ''Failed to start recording'')\<rparr>) r)"

text \<open>
  The \<open>try\<close> block, when its three waits end one after the other and nothing runs in
  between. The waits are taken apart further below.
\<close>

definition tryStart :: "startEnv \<Rightarrow> run \<Rightarrow> run" where
  "tryStart env = (\<lambda>(tr, fx, c).
     let (recorder, deepgram, c1) = getServices c;
         (started, fxr, recorder1) = start (captureOutcome env) recorder;
         r2 = (tr, fx @ fxr, c1\<lparr>recorderRef := Some recorder1\<rparr>)
     in case started of
          Inl message \<Rightarrow> catchStart message r2
        | Inr sampleRate \<Rightarrow>
            if \<not> isConnected deepgram then
              (let (tr3, fx3, c3) = setState (\<lambda>prev. prev\<lparr>connectionState := connecting\<rparr>) r2;
                   (opened, fxc, errs, deepgram1) = connect sampleRate (handshakeOutcome env) deepgram;
                   r4 = onError errs (tr3, fx3 @ fxc, c3\<lparr>deepgramRef := Some deepgram1\<rparr>)
               in case opened of
                    Inl message \<Rightarrow> catchStart message r4
                  | Inr u \<Rightarrow> setState (\<lambda>prev. prev\<lparr>connectionState := connected\<rparr>) r4)
            else r2)"

definition startRecording :: "startEnv \<Rightarrow> Controller \<Rightarrow> run" where
  "startRecording env c =
     (let r1 = setState (\<lambda>prev. prev\<lparr>isRecording := True, error := None, statusMessage := None,
                                    transcript := [], sessionDuration := 0\<rparr>) ([], [], c);
          (tr2, fx2, c2) = clearTimer r1;
          r3 = (tr2, fx2 @ [SetInterval (timerId env)],
                c2\<lparr>startTimeRef := now env, timerIntervalRef := Some (timerId env)\<rparr>)
      in tryStart env r3)"

text \<open>The tick of the interval timer.\<close>

definition tick :: "int \<Rightarrow> Controller \<Rightarrow> run" where
  "tick t c =
     setState (\<lambda>prev. prev\<lparr>sessionDuration := (t - startTimeRef c) div 1000\<rparr>) ([], [], c)"

subsection \<open>\<open>handleStop\<close>\<close>

text \<open>The three readings of \<open>Date.now()\<close> in the updater, in the order of the code.\<close>

record stopClock =
  nowDuration :: int
  nowId :: int
  nowTimestamp :: int

definition fullTextOf :: "PushToTalkState \<Rightarrow> string" where
  "fullTextOf current =
     (if interimTranscript current \<noteq> []
      then transcript current @ '' '' @ interimTranscript current
      else transcript current)"

text \<open>The updater of \<open>handleStop\<close>, and the clipboard write it makes.\<close>

definition stopUpdate ::
  "string option \<Rightarrow> stopClock \<Rightarrow> int \<Rightarrow> PushToTalkState \<Rightarrow> PushToTalkState" where
  "stopUpdate reason clock startTime current =
     (if \<not> isRecording current then current
      else
        let duration = real_of_int (nowDuration clock - startTime) / 1000;
            fullText = fullTextOf current;
            words = countWords fullText;
            newRecord = \<lparr> rec_id = toString (nowId clock), rec_timestamp = nowTimestamp clock,
                          rec_text = trim fullText, rec_duration = duration,
                          rec_wordCount = words \<rparr>
        in current\<lparr>isRecording := False, connectionState := disconnected,
                   interimTranscript := [],
                   statusMessage := (case reason of None \<Rightarrow> None
                                     | Some m \<Rightarrow> if m \<noteq> [] then Some m else None),
                   history := (if trim fullText \<noteq> [] then newRecord # history current
                               else history current),
                   audioStatus := silence\<rparr>)"

definition stopClipboard :: "PushToTalkState \<Rightarrow> effect list" where
  "stopClipboard current =
     (if isRecording current \<and> autoInsert current \<and> trim (fullTextOf current) \<noteq> []
      then [CopyToClipboard (trim (fullTextOf current))] else [])"

definition handleStop :: "string option \<Rightarrow> stopClock \<Rightarrow> Controller \<Rightarrow> run" where
  "handleStop reason clock c =
     (let (tr1, fx1, c1) = clearTimer ([], [], c);
          c2 = (case timerIntervalRef c1 of
                  None \<Rightarrow> c1
                | Some i \<Rightarrow> if i = 0 then c1 else c1\<lparr>timerIntervalRef := None\<rparr>);
          (tr3, fx3, c3) =
             setState (stopUpdate reason clock (startTimeRef c2))
               (perform (stopClipboard (state c2)) (tr1, fx1, c2));
          (recorder, deepgram, c4) = getServices c3;
          (fxr, recorder1) = stop recorder;
          (fxd, deepgram1) = disconnect deepgram
      in (tr3, fx3 @ fxr @ fxd, c4\<lparr>recorderRef := Some recorder1, deepgramRef := Some deepgram1\<rparr>))"

subsection \<open>The other commands, and sequences of handlers\<close>

definition toggleAutoInsert :: "Controller \<Rightarrow> run" where
  "toggleAutoInsert c = setState (\<lambda>prev. prev\<lparr>autoInsert := \<not> autoInsert prev\<rparr>) ([], [], c)"

definition clearTranscript :: "Controller \<Rightarrow> run" where
  "clearTranscript c =
     setState (\<lambda>prev. prev\<lparr>transcript := [], wordCount := 0, charCount := 0,
                           sessionDuration := 0\<rparr>) ([], [], c)"

text \<open>
  The open socket that the service holds is closed by the peer or by the network: its
  \<open>readyState\<close> becomes \<open>CLOSED\<close>, and \<open>onclose\<close> only writes to the console.
\<close>

definition socketCloses :: "Controller \<Rightarrow> run" where
  "socketCloses c =
     ([], [],
      case deepgramRef c of
        None \<Rightarrow> c
      | Some d \<Rightarrow> if socket d = Some OPEN then c\<lparr>deepgramRef := Some (d\<lparr>socket := Some CLOSED\<rparr>)\<rparr>
                  else c)"

text \<open>
  A socket that has opened reports an error: \<open>onerror\<close> passes its message to the error
  callback, and its \<open>reject\<close> finds the promise of \<open>connect\<close> settled.
\<close>

definition socketFails :: "Controller \<Rightarrow> run" where
  "socketFails c = onError [''WebSocket connection error''] ([], [], c)"

text \<open>
  The handlers that run to their end once they are called: the stop command, the callbacks
  of the socket, of the script processor and of the timer, and the two other commands.
  \<open>startRecording\<close> is not one of them: it waits three times, and is followed from wait to
  wait below.
\<close>

datatype event =
    StopRecording stopClock
  | TranscriptEvent string bool
  | Frame "real list" "8 word list"
  | Tick int
  | ToggleAutoInsert
  | ClearTranscript
  | SocketCloses
  | SocketFails

fun step :: "event \<Rightarrow> Controller \<Rightarrow> run" where
  "step (StopRecording clock) c = handleStop None clock c"
| "step (TranscriptEvent text isFinal) c = onTranscript text isFinal ([], [], c)"
| "step (Frame inputData dataArray) c = frame inputData dataArray c"
| "step (Tick t) c = tick t c"
| "step ToggleAutoInsert c = toggleAutoInsert c"
| "step ClearTranscript c = clearTranscript c"
| "step SocketCloses c = socketCloses c"
| "step SocketFails c = socketFails c"

fun exec :: "event list \<Rightarrow> run \<Rightarrow> run" where
  "exec [] r = r"
| "exec (e # es) (tr, fx, c) =
     (let (tr1, fx1, c1) = step e c in exec es (tr @ tr1, fx @ fx1, c1))"

subsection \<open>\<open>startRecording\<close>, from wait to wait\<close>

text \<open>
  \<open>startRecording\<close> is an \<open>async\<close> function. It hands control back at
  \<open>await navigator.mediaDevices.getUserMedia(...)\<close> and at
  \<open>await this.audioContext.resume()\<close>, both inside \<open>recorder.start\<close>, and at
  \<open>await deepgram.connect(sampleRate)\<close>; any handler, and another call of
  \<open>startRecording\<close>, may run before it goes on. A call that has begun waits for one of
  the three. For a call that waits for its socket the flag says whether the service still
  refers to that socket: after \<open>disconnect\<close> it refers to none, after a later
  \<open>connect\<close> to another.
\<close>

datatype awaiting = AwaitingUserMedia | AwaitingResume | AwaitingHandshake bool

text \<open>
  The four parts of a call follow. Each returns the run of that part and the wait it has
  reached, \<open>None\<close> when the call has ended. The \<open>recorder\<close> and \<open>deepgram\<close> of a call are
  the objects that the two refs hold from its first part on, which \<open>getServices\<close> returns
  again. A promise that rejects takes the call to its \<open>catch\<close> block before any handler
  runs.

  The first part, up to \<open>getUserMedia\<close>: the state update, the timer, and the beginning of
  \<open>recorder.start\<close>, which stops a capture that is still held.
\<close>

definition startCalled :: "startEnv \<Rightarrow> Controller \<Rightarrow> run" where
  "startCalled env c =
     (let r1 = setState (\<lambda>prev. prev\<lparr>isRecording := True, error := None, statusMessage := None,
                                    transcript := [], sessionDuration := 0\<rparr>) ([], [], c);
          (tr2, fx2, c2) = clearTimer r1;
          c3 = c2\<lparr>startTimeRef := now env, timerIntervalRef := Some (timerId env)\<rparr>;
          (recorder, deepgram, c4) = getServices c3;
          (fxr, recorder1) = (if mediaStream recorder \<noteq> None then stop recorder else ([], recorder))
      in (tr2, fx2 @ [SetInterval (timerId env)] @ fxr, c4\<lparr>recorderRef := Some recorder1\<rparr>))"

text \<open>
  The second part, from the answer of \<open>getUserMedia\<close> to \<open>resume\<close>: the stream is kept
  and the audio graph is built on a new context.
\<close>

definition userMediaSettled :: "startEnv \<Rightarrow> Controller \<Rightarrow> run \<times> awaiting option" where
  "userMediaSettled env c =
     (let (recorder, deepgram, c1) = getServices c;
          built = (\<lambda>strm ctx.
            (([], [OpenStream strm],
              c1\<lparr>recorderRef := Some (recorder\<lparr>mediaStream := Some strm, audioContext := Some ctx,
                       source := Some ctx, analyser := Some ctx, processor := Some ctx\<rparr>)\<rparr>),
             Some AwaitingResume))
      in case captureOutcome env of
           GetUserMediaRejected msg \<Rightarrow> (catchStart msg ([], [], c1), None)
         | ResumeRejected strm ctx msg \<Rightarrow> built strm ctx
         | CaptureStarted strm ctx rate \<Rightarrow> built strm ctx)"

text \<open>
  The message of the \<open>TypeError\<close> that \<open>this.audioContext.sampleRate\<close> throws when
  \<open>stop\<close> has cleared the context in the meantime. The wording is the engine's; it is not
  empty.
\<close>

definition nullContext :: string where
  "nullContext = ''Cannot read properties of null''"

text \<open>
  The call of \<open>deepgram.connect\<close> with what precedes it in \<open>startRecording\<close>. The body of
  the promise runs at once: it rejects without a key or when the constructor throws, else
  the new socket replaces the one the service held and the call waits for it.
\<close>

definition connectCalled :: "nat \<Rightarrow> startEnv \<Rightarrow> Controller \<Rightarrow> run \<times> awaiting option" where
  "connectCalled sampleRate env c =
     (let (recorder, deepgram, c1) = getServices c
      in if isConnected deepgram then (([], [], c1), None)
         else
           let (tr2, fx2, c2) = setState (\<lambda>prev. prev\<lparr>connectionState := connecting\<rparr>) ([], [], c1)
           in if apiKey deepgram = [] then (catchStart ''Missing Deepgram API Key'' (tr2, fx2, c2), None)
              else case handshakeOutcome env of
                     ConstructorThrows msg \<Rightarrow> (catchStart msg (tr2, fx2, c2), None)
                   | SocketErrors \<Rightarrow>
                       ((tr2, fx2 @ [SocketCreate sampleRate],
                         c2\<lparr>deepgramRef := Some (deepgram\<lparr>socket := Some CONNECTING\<rparr>)\<rparr>),
                        Some (AwaitingHandshake True))
                   | SocketOpens \<Rightarrow>
                       ((tr2, fx2 @ [SocketCreate sampleRate],
                         c2\<lparr>deepgramRef := Some (deepgram\<lparr>socket := Some CONNECTING\<rparr>)\<rparr>),
                        Some (AwaitingHandshake True)))"

text \<open>
  The third part, from the answer of \<open>resume\<close> to the handshake: \<open>recorder.start\<close> returns
  the sample rate of the context that the recorder holds by then (contexts opened by
  overlapping calls are taken to run at the same rate), and \<open>deepgram.connect\<close> is called
  unless the socket is open. A call whose \<open>getUserMedia\<close> was rejected has ended in the
  part before and does not come here; its case is listed for completeness.
\<close>

definition resumeSettled :: "startEnv \<Rightarrow> Controller \<Rightarrow> run \<times> awaiting option" where
  "resumeSettled env c =
     (let (recorder, deepgram, c1) = getServices c
      in case captureOutcome env of
           GetUserMediaRejected msg \<Rightarrow> (catchStart msg ([], [], c1), None)
         | ResumeRejected strm ctx msg \<Rightarrow> (catchStart msg ([], [], c1), None)
         | CaptureStarted strm ctx rate \<Rightarrow>
             if audioContext recorder = None then (catchStart nullContext ([], [], c1), None)
             else connectCalled rate env c1)"

text \<open>
  The fourth part, the end of the handshake. \<open>onopen\<close> and \<open>onerror\<close> are handlers of the
  socket of this call and run whether or not the service still refers to it; the
  \<open>readyState\<close> that the service sees changes only if it does. \<open>onerror\<close> calls the
  error callback and rejects. A call whose constructor threw has ended in the part before
  and does not come here; its case is listed for completeness.
\<close>

definition handshakeSettled :: "startEnv \<Rightarrow> bool \<Rightarrow> Controller \<Rightarrow> run \<times> awaiting option" where
  "handshakeSettled env attached c =
     (let (recorder, deepgram, c1) = getServices c;
          becomes = (\<lambda>st. c1\<lparr>deepgramRef := Some (if attached then deepgram\<lparr>socket := Some st\<rparr>
                                                   else deepgram)\<rparr>)
      in case handshakeOutcome env of
           SocketOpens \<Rightarrow>
             (setState (\<lambda>prev. prev\<lparr>connectionState := connected\<rparr>) ([], [], becomes OPEN), None)
         | SocketErrors \<Rightarrow>
             (catchStart ''WebSocket connection failed''
                (onError [''WebSocket connection error''] ([], [], becomes CLOSED)), None)
         | ConstructorThrows msg \<Rightarrow>
             (catchStart ''WebSocket connection failed''
                (onError [''WebSocket connection error''] ([], [], becomes CLOSED)), None))"

text \<open>
  The hook with the calls of \<open>startRecording\<close> that have not ended: for each what the
  platform answers to it and what it waits for.
\<close>

record call =
  platform :: startEnv
  waitsFor :: awaiting

record hook =
  controller :: Controller
  pending :: "call list"

definition mounted :: "string \<Rightarrow> hook" where
  "mounted key = \<lparr> controller = usePushToTalk key, pending = [] \<rparr>"

definition settle :: "call \<Rightarrow> Controller \<Rightarrow> run \<times> awaiting option" where
  "settle k c =
     (case waitsFor k of
        AwaitingUserMedia \<Rightarrow> userMediaSettled (platform k) c
      | AwaitingResume \<Rightarrow> resumeSettled (platform k) c
      | AwaitingHandshake attached \<Rightarrow> handshakeSettled (platform k) attached c)"

text \<open>The service stops referring to the socket that a call waits for.\<close>

definition detach :: "call \<Rightarrow> call" where
  "detach k =
     (case waitsFor k of
        AwaitingHandshake attached \<Rightarrow> k\<lparr>waitsFor := AwaitingHandshake False\<rparr>
      | _ \<Rightarrow> k)"

text \<open>
  What happens next in a run: \<open>startRecording\<close> is called, the wait of the \<open>i\<close>-th pending
  call ends, or a handler runs. A call that reaches its handshake has replaced the socket
  of the service, and \<open>handleStop\<close> has cleared it.
\<close>

datatype action = Begin startEnv | Settle nat | Handle event

fun isStop :: "event \<Rightarrow> bool" where
  "isStop (StopRecording clock) = True"
| "isStop e = False"

fun act :: "action \<Rightarrow> hook \<Rightarrow> PushToTalkState list \<times> effect list \<times> hook" where
  "act (Begin env) h =
     (let (tr, fx, c) = startCalled env (controller h)
      in (tr, fx, \<lparr> controller = c,
                     pending = pending h @ [\<lparr> platform = env, waitsFor = AwaitingUserMedia \<rparr>] \<rparr>))"
| "act (Settle i) h =
     (if i < length (pending h) then
        let k = pending h ! i;
            ((tr, fx, c), reached) = settle k (controller h);
            calls = (if waitsFor k = AwaitingResume \<and> reached \<noteq> None
                     then map detach (pending h) else pending h)
        in (tr, fx, \<lparr> controller = c,
                       pending = (case reached of
                                    None \<Rightarrow> take i calls @ drop (Suc i) calls
                                  | Some w \<Rightarrow> calls[i := k\<lparr>waitsFor := w\<rparr>]) \<rparr>)
      else ([], [], h))"
| "act (Handle e) h =
     (let (tr, fx, c) = step e (controller h)
      in (tr, fx, \<lparr> controller = c,
                     pending = (if isStop e then map detach (pending h) else pending h) \<rparr>))"

fun play ::
  "action list \<Rightarrow> PushToTalkState list \<times> effect list \<times> hook \<Rightarrow>
     PushToTalkState list \<times> effect list \<times> hook" where
  "play [] r = r"
| "play (a # as) (tr, fx, h) =
     (let (tr1, fx1, h1) = act a h in play as (tr @ tr1, fx @ fx1, h1))"

section \<open>Notions used by the properties\<close>

subsection \<open>Connection state along a run\<close>

text \<open>The three edges \<open>disconnected \<rightarrow> connecting \<rightarrow> connected \<rightarrow> disconnected\<close>.\<close>

fun specEdge :: "ConnectionState \<Rightarrow> ConnectionState \<Rightarrow> bool" where
  "specEdge disconnected connecting = True"
| "specEdge connecting connected = True"
| "specEdge connected disconnected = True"
| "specEdge a b = False"

text \<open>The same edges and the one of the \<open>catch\<close> block, from \<open>connecting\<close> back.\<close>

definition codeEdge :: "ConnectionState \<Rightarrow> ConnectionState \<Rightarrow> bool" where
  "codeEdge a b = (specEdge a b \<or> (a = connecting \<and> b = disconnected))"

text \<open>Every two successive values of a sequence are equal or joined by an edge.\<close>

fun changesAlong ::
  "(ConnectionState \<Rightarrow> ConnectionState \<Rightarrow> bool) \<Rightarrow> ConnectionState list \<Rightarrow> bool" where
  "changesAlong E (a # b # rest) = ((a = b \<or> E a b) \<and> changesAlong E (b # rest))"
| "changesAlong E xs = True"

text \<open>
  A run in which the commands come one at a time: \<open>startRecording\<close> is called only while
  the state does not say \<open>isRecording\<close>, and the stop command only while no call of
  \<open>startRecording\<close> is pending. Waits may end and the other handlers may run at any time.
\<close>

fun allowed :: "action \<Rightarrow> hook \<Rightarrow> bool" where
  "allowed (Begin env) h = (\<not> isRecording (state (controller h)))"
| "allowed (Settle i) h = True"
| "allowed (Handle e) h = (isStop e \<longrightarrow> pending h = [])"

fun calm :: "action list \<Rightarrow> hook \<Rightarrow> bool" where
  "calm [] h = True"
| "calm (a # as) h = (allowed a h \<and> calm as (snd (snd (act a h))))"

text \<open>
  What such a run keeps: without a pending call, a state that does not record says
  \<open>disconnected\<close>; with one, the state records and says \<open>connecting\<close> during the handshake
  and \<open>disconnected\<close> before it; there are never two.
\<close>

fun stateWhile :: "awaiting \<Rightarrow> ConnectionState" where
  "stateWhile (AwaitingHandshake attached) = connecting"
| "stateWhile w = disconnected"

definition settled :: "PushToTalkState \<Rightarrow> bool" where
  "settled s = (\<not> isRecording s \<longrightarrow> connectionState s = disconnected)"

definition hookInv :: "hook \<Rightarrow> bool" where
  "hookInv h =
     (let s = state (controller h)
      in case pending h of
           [] \<Rightarrow> settled s
         | [k] \<Rightarrow> isRecording s \<and> connectionState s = stateWhile (waitsFor k)
         | _ \<Rightarrow> False)"

text \<open>The same for one part of a call, from the state \<open>s0\<close> on.\<close>

definition phaseOk :: "PushToTalkState \<Rightarrow> run \<times> awaiting option \<Rightarrow> bool" where
  "phaseOk s0 res = (case res of ((tr, fx, c), reached) \<Rightarrow>
     changesAlong codeEdge (map connectionState (s0 # tr)) \<and> state c = last (s0 # tr) \<and>
     (case reached of
        None \<Rightarrow> settled (state c)
      | Some w \<Rightarrow> isRecording (state c) \<and> connectionState (state c) = stateWhile w))"

text \<open>
  A run continues the state \<open>s0\<close>: its states change the connection along \<open>codeEdge\<close>,
  starting from \<open>s0\<close>, and the controller holds the last of them.
\<close>

definition traceOk :: "PushToTalkState \<Rightarrow> run \<Rightarrow> bool" where
  "traceOk s0 r = (case r of (tr, fx, c) \<Rightarrow>
     changesAlong codeEdge (map connectionState (s0 # tr)) \<and> state c = last (s0 # tr))"

subsection \<open>Resources held\<close>

text \<open>No timer, no capture handle and no open socket is held by the controller.\<close>

definition holdsNothing :: "Controller \<Rightarrow> bool" where
  "holdsNothing c =
     ((case timerIntervalRef c of None \<Rightarrow> True | Some i \<Rightarrow> i = 0) \<and>
      (case recorderRef c of
         None \<Rightarrow> True
       | Some r \<Rightarrow> mediaStream r = None \<and> processor r = None \<and> input r = None
                   \<and> audioContext r = None) \<and>
      (case deepgramRef c of None \<Rightarrow> True | Some d \<Rightarrow> socket d \<noteq> Some OPEN))"

fun isStreamEffect :: "effect \<Rightarrow> bool" where
  "isStreamEffect (OpenStream h) = True"
| "isStreamEffect (TrackStop h) = True"
| "isStreamEffect e = False"

fun isSocketEffect :: "effect \<Rightarrow> bool" where
  "isSocketEffect (SocketCreate n) = True"
| "isSocketEffect (SocketSendAudio d) = True"
| "isSocketEffect SocketSendCloseStream = True"
| "isSocketEffect SocketClose = True"
| "isSocketEffect e = False"

subsection \<open>Frames at a rounding boundary\<close>

text \<open>
  The root mean square of a frame as the glossary of the specification has it, in exact
  arithmetic; \<open>rms\<close> above is the value the code computes for it.
\<close>

definition rootMeanSquare :: "real list \<Rightarrow> real" where
  "rootMeanSquare inputData =
     sqrt (sum_list (map (\<lambda>x. x * x) inputData) / real (length inputData))"

text \<open>
  Two frames of 4096 Float32 samples, three of them not zero. The root mean square of the
  first is a little less than \<open>0.005\<close>, that of the second a little less than \<open>0.00375\<close>.
\<close>

definition nearSilence :: "real list" where
  "nearSilence =
     [10737417 / 2 ^ 25, 5284157 / 2 ^ 35, 15341213 / 2 ^ 49] @ replicate 4093 0"

definition nearHalf :: "real list" where
  "nearHalf =
     [4026531 / 2 ^ 24, 10653201 / 2 ^ 36, 5505019 / 2 ^ 47] @ replicate 4093 0"

subsection \<open>Concrete sessions\<close>

text \<open>
  A start that succeeds, one whose socket reports an error during the handshake, and a
  second start eight seconds after the first.
\<close>

definition env_ok :: startEnv where
  "env_ok = \<lparr> now = 1000, timerId = 7, captureOutcome = CaptureStarted 1 1 48000,
               handshakeOutcome = SocketOpens \<rparr>"

definition env_refused :: startEnv where
  "env_refused = \<lparr> now = 1000, timerId = 7, captureOutcome = CaptureStarted 1 1 48000,
                    handshakeOutcome = SocketErrors \<rparr>"

definition env_again :: startEnv where
  "env_again = \<lparr> now = 9000, timerId = 8, captureOutcome = CaptureStarted 2 2 48000,
                  handshakeOutcome = SocketOpens \<rparr>"

definition clock_6s :: stopClock where
  "clock_6s = \<lparr> nowDuration = 6000, nowId = 6001, nowTimestamp = 6001 \<rparr>"

text \<open>The controller after a successful start: recording, connected, nothing heard yet.\<close>

definition listening :: Controller where
  "listening = snd (snd (startRecording env_ok (usePushToTalk ''key'')))"

text \<open>Then an interim result \<open>fo\<close> is pending.\<close>

definition pendingFo :: Controller where
  "pendingFo = snd (snd (step (TranscriptEvent ''fo'' False) listening))"

text \<open>Or the final result \<open>hello\<close> has arrived, and the timer has ticked after five seconds.\<close>

definition talking :: Controller where
  "talking = snd (snd (exec [TranscriptEvent ''hello'' True, Tick 6000] ([], [], listening)))"

text \<open>The controller after the start whose handshake failed.\<close>

definition orphaned :: Controller where
  "orphaned = snd (snd (startRecording env_refused (usePushToTalk ''key'')))"

text \<open>
  Four runs from the mounted hook. In the first the socket reports an error during the
  handshake. In the second the stop command comes during the handshake, and the socket
  opens afterwards. In the third the socket is closed by the peer and \<open>startRecording\<close> is
  called again while the state still records. The fourth is a session of the ordinary kind,
  with a frame and a tick during the handshake, followed by a start that fails.
\<close>

definition refusedRun :: "action list" where
  "refusedRun = [Begin env_refused, Settle 0, Settle 0, Settle 0]"

definition stoppedWhileConnecting :: "action list" where
  "stoppedWhileConnecting =
     [Begin env_ok, Settle 0, Settle 0, Handle (StopRecording clock_6s), Settle 0]"

definition restartedAfterClose :: "action list" where
  "restartedAfterClose =
     [Begin env_ok, Settle 0, Settle 0, Settle 0, Handle SocketCloses,
      Begin env_again, Settle 0, Settle 0]"

definition ordinaryRun :: "action list" where
  "ordinaryRun =
     [Begin env_ok, Settle 0, Settle 0, Handle (Frame [0, 0] [0, 0]), Handle (Tick 2000),
      Settle 0, Handle (TranscriptEvent ''hello'' True), Handle SocketCloses,
      Handle (StopRecording clock_6s), Begin env_refused, Settle 0, Settle 0, Settle 0]"

text \<open>A recorder that captures, and a final message of the backend with an empty transcript.\<close>

definition capturing :: AudioRecorder where
  "capturing = snd (snd (start (CaptureStarted 1 1 48000) (newAudioRecorder True True)))"

definition emptyAlternative :: json where
  "emptyAlternative = JObject [(''transcript'', JString []), (''confidence'', JNumber 0)]"

definition emptyFinal :: json where
  "emptyFinal =
     JObject [(''channel'', JObject [(''alternatives'', JArray [emptyAlternative])]),
              (''is_final'', JBool True)]"

section \<open>PCM conversion\<close>

lemma sint_toInt16:
  assumes "- 32768 \<le> truncate_js x" "truncate_js x \<le> 32767"
  shows "sint (toInt16 x) = truncate_js x"
  unfolding toInt16_def using assms
  by (simp add: sint_sbintrunc' signed_take_bit_int_eq_self)

lemma truncate_js_bounds:
  assumes "- 32768 \<le> x" "x \<le> 32767"
  shows "- 32768 \<le> truncate_js x \<and> truncate_js x \<le> 32767"
  using assms unfolding truncate_js_def
  by (auto simp: le_floor_iff ceiling_le_iff floor_le_iff le_ceiling_iff)

lemma sint_pcmSample:
  "sint (pcmSample x) =
     (if 1 < x then 0x7FFF else if x < - 1 then - 0x8000
      else if x < 0 then \<lceil>x * 0x8000\<rceil> else \<lfloor>x * 0x7FFF\<rfloor>)"
proof -
  let ?s = "max (- 1) (min 1 x)"
  let ?y = "if ?s < 0 then ?s * 0x8000 else ?s * 0x7FFF"
  have s: "- 1 \<le> ?s" "?s \<le> 1" by auto
  have y: "- 32768 \<le> ?y" "?y \<le> 32767" using s by auto
  have "sint (pcmSample x) = truncate_js ?y"
    unfolding pcmSample_def Let_def using truncate_js_bounds [OF y] sint_toInt16 by blast
  also have "\<dots> = (if 1 < x then 0x7FFF else if x < - 1 then - 0x8000
      else if x < 0 then \<lceil>x * 0x8000\<rceil> else \<lfloor>x * 0x7FFF\<rfloor>)"
    unfolding truncate_js_def by (auto simp: max_def min_def mult_less_0_iff)
  finally show ?thesis .
qed

text \<open>
  Claim C3, as the code has it. Each output sample is the scaled input with its fraction
  dropped, not rounded: \<open>\<lfloor>s * 0x7FFF\<rfloor>\<close> for \<open>0 \<le> s \<le> 1\<close> and \<open>\<lceil>s * 0x8000\<rceil>\<close> for
  \<open>- 1 \<le> s < 0\<close>; above \<open>1\<close> the output is \<open>0x7FFF\<close> and below \<open>- 1\<close> it is \<open>- 0x8000\<close>.
\<close>

theorem floatTo16BitPCM_truncates:
  "map sint (floatTo16BitPCM samples) =
     map (\<lambda>s. if 1 < s then 0x7FFF else if s < - 1 then - 0x8000
               else if s < 0 then \<lceil>s * 0x8000\<rceil> else \<lfloor>s * 0x7FFF\<rfloor>) samples"
  by (induction samples) (simp_all only: floatTo16BitPCM.simps list.map sint_pcmSample)

theorem floatTo16BitPCM_truncates_witness:
  "map sint (floatTo16BitPCM [1 / 4, - 1 / 4, 2, - 3, 0]) = [8191, - 8192, 32767, - 32768, 0]"
  using floatTo16BitPCM_truncates [of "[1 / 4, - 1 / 4, 2, - 3, 0]"] by simp

text \<open>
  The sample \<open>1 / 4\<close> lies in \<open>[0, 1]\<close>; scaled it is \<open>8191.75\<close>, which rounds to \<open>8192\<close>,
  and the encoder stores \<open>8191\<close>.
\<close>

theorem floatTo16BitPCM_round_counterexample:
  "(0 :: real) \<le> 1 / 4 \<and> (1 / 4 :: real) \<le> 1
   \<and> round ((1 / 4 :: real) * 0x7FFF) = 8192
   \<and> map sint (floatTo16BitPCM [1 / 4]) = [8191]"
  by (simp add: pcmSample_def toInt16_def truncate_js_def round_def)

section \<open>Rounding to doubles\<close>

lemma rne_of_int [simp]: "rne (of_int k) = k"
  by (simp add: rne_def)

lemma rne_bounds: "of_int \<lfloor>x\<rfloor> \<le> (of_int (rne x) :: real)" "rne x \<le> \<lfloor>x\<rfloor> + 1"
  by (simp_all add: rne_def Let_def)

lemma rne_mono:
  assumes "x \<le> y"
  shows "rne x \<le> rne y"
proof (cases "\<lfloor>x\<rfloor> = \<lfloor>y\<rfloor>")
  case True
  have "x - of_int \<lfloor>x\<rfloor> \<le> y - of_int \<lfloor>y\<rfloor>" using assms True by simp
  then show ?thesis using True by (auto simp: rne_def Let_def)
next
  case False
  then have "\<lfloor>x\<rfloor> < \<lfloor>y\<rfloor>" using assms floor_mono [of x y] by linarith
  then have "\<lfloor>x\<rfloor> + 1 \<le> \<lfloor>y\<rfloor>" by simp
  moreover have "rne x \<le> \<lfloor>x\<rfloor> + 1" by (rule rne_bounds)
  moreover have "\<lfloor>y\<rfloor> \<le> rne y" using rne_bounds(1) [of y] by simp
  ultimately show ?thesis by linarith
qed

lemma pow2_pos: "0 < (2::real) powi k"
  by (simp add: power_int_def)

lemma powr2: "2 powr (real_of_int k) = (2::real) powi k"
  by (simp add: powr_real_of_int')

lemma floor_log2_iff:
  assumes "0 < x"
  shows "\<lfloor>log 2 x\<rfloor> = e \<longleftrightarrow> 2 powi e \<le> x \<and> x < 2 powi (e + 1)"
proof -
  have "\<lfloor>log 2 x\<rfloor> = e \<longleftrightarrow> 2 powr (real_of_int e) \<le> x \<and> x < 2 powr (real_of_int e + 1)"
    using floor_log_eq_powr_iff [of x 2 e] assms by simp
  also have "real_of_int e + 1 = real_of_int (e + 1)" by simp
  finally show ?thesis by (simp only: powr2)
qed

lemma binade:
  assumes "0 < x"
  shows "2 powi \<lfloor>log 2 x\<rfloor> \<le> x \<and> x < 2 powi (\<lfloor>log 2 x\<rfloor> + 1)"
  using floor_log2_iff [OF assms, of "\<lfloor>log 2 x\<rfloor>"] by simp

lemma binade_unique:
  assumes "2 powi e \<le> x" "x < 2 powi (e + 1)"
  shows "\<lfloor>log 2 x\<rfloor> = e"
proof -
  have x: "0 < x" using assms(1) pow2_pos [of e] by linarith
  show ?thesis using floor_log2_iff [OF x, of e] assms by simp
qed

text \<open>Evaluating \<open>fl\<close> at a positive number whose binade is known.\<close>

lemma fl_eval:
  assumes "2 powi e \<le> x" "x < 2 powi (e + 1)"
  shows "fl x = of_int (rne (x / 2 powi (e - 52))) * 2 powi (e - 52)"
proof -
  have x: "0 < x" using assms(1) pow2_pos [of e] by linarith
  then show ?thesis using binade_unique [OF assms] by (simp add: fl_def Let_def)
qed

lemma fl_zero [simp]: "fl 0 = 0"
  by (simp add: fl_def)

lemma fl_binade:
  assumes "2 powi e \<le> x" "x < 2 powi (e + 1)"
  shows "2 powi e \<le> fl x \<and> fl x \<le> 2 powi (e + 1)"
proof -
  let ?u = "(2::real) powi (e - 52)"
  have u: "0 < ?u" by (rule pow2_pos)
  have lo: "2 powi e = 2 ^ 52 * ?u" and hi: "2 powi (e + 1) = 2 ^ 53 * ?u"
    by (simp_all add: power_int_diff power_int_add)
  have a: "of_int (2 ^ 52) \<le> x / ?u" using assms(1) u lo by (simp add: pos_le_divide_eq)
  have b: "x / ?u \<le> of_int (2 ^ 53)" using assms(2) u hi by (simp add: pos_divide_le_eq)
  have "rne (of_int (2 ^ 52)) \<le> rne (x / ?u)" using rne_mono [OF a] .
  then have a': "2 ^ 52 \<le> rne (x / ?u)" by (simp only: rne_of_int)
  have "rne (x / ?u) \<le> rne (of_int (2 ^ 53))" using rne_mono [OF b] .
  then have b': "rne (x / ?u) \<le> 2 ^ 53" by (simp only: rne_of_int)
  have "(of_int (2 ^ 52) :: real) \<le> of_int (rne (x / ?u))"
    using a' by (simp only: of_int_le_iff)
  then have "(2 ^ 52 :: real) \<le> of_int (rne (x / ?u))" by simp
  then have "2 ^ 52 * ?u \<le> of_int (rne (x / ?u)) * ?u"
    using u by (intro mult_right_mono) simp_all
  moreover have "(of_int (rne (x / ?u)) :: real) \<le> of_int (2 ^ 53)"
    using b' by (simp only: of_int_le_iff)
  then have "of_int (rne (x / ?u)) \<le> (2 ^ 53 :: real)" by simp
  then have "of_int (rne (x / ?u)) * ?u \<le> 2 ^ 53 * ?u"
    using u by (intro mult_right_mono) simp_all
  ultimately show ?thesis using fl_eval [OF assms] lo hi by simp
qed

lemma fl_pos_mono:
  assumes "0 < x" "x \<le> y"
  shows "fl x \<le> fl y"
proof -
  let ?e = "\<lfloor>log 2 x\<rfloor>" and ?f = "\<lfloor>log 2 y\<rfloor>"
  have y: "0 < y" using assms by linarith
  have bx: "2 powi ?e \<le> x" "x < 2 powi (?e + 1)" using binade [OF assms(1)] by simp_all
  have by': "2 powi ?f \<le> y" "y < 2 powi (?f + 1)" using binade [OF y] by simp_all
  have ef: "?e \<le> ?f" using assms by (intro floor_mono) simp
  show ?thesis
  proof (cases "?e = ?f")
    case True
    let ?u = "(2::real) powi (?e - 52)"
    have u: "0 < ?u" by (rule pow2_pos)
    have "x / ?u \<le> y / ?u" using assms(2) u by (simp add: divide_right_mono)
    then have "rne (x / ?u) \<le> rne (y / ?u)" by (rule rne_mono)
    then have "(of_int (rne (x / ?u)) :: real) \<le> of_int (rne (y / ?u))" by simp
    then have "of_int (rne (x / ?u)) * ?u \<le> of_int (rne (y / ?u)) * ?u"
      using u by (intro mult_right_mono) simp_all
    then show ?thesis using fl_eval [OF bx] fl_eval [OF by'] True by simp
  next
    case False
    then have "?e + 1 \<le> ?f" using ef by linarith
    then have "(2::real) powi (?e + 1) \<le> 2 powi ?f" by (simp add: power_int_increasing)
    moreover have "fl x \<le> 2 powi (?e + 1)" using fl_binade [OF bx] by simp
    moreover have "2 powi ?f \<le> fl y" using fl_binade [OF by'] by simp
    ultimately show ?thesis by linarith
  qed
qed

lemma fl_nonneg:
  assumes "0 \<le> x"
  shows "0 \<le> fl x"
proof (cases "x = 0")
  case True
  then show ?thesis by simp
next
  case False
  then have x: "0 < x" using assms by simp
  have "0 < (2::real) powi \<lfloor>log 2 x\<rfloor>" by (rule pow2_pos)
  then show ?thesis using fl_binade [of "\<lfloor>log 2 x\<rfloor>" x] binade [OF x] by linarith
qed

text \<open>Rounding keeps the order of the numbers that are not negative.\<close>

lemma fl_mono:
  assumes "0 \<le> x" "x \<le> y"
  shows "fl x \<le> fl y"
proof (cases "x = 0")
  case True
  then show ?thesis using fl_nonneg [of y] assms by simp
next
  case False
  then show ?thesis using fl_pos_mono [of x y] assms by simp
qed

lemma fl_exact:
  assumes "2 powi e \<le> x" "x < 2 powi (e + 1)" "x / 2 powi (e - 52) = of_int m"
  shows "fl x = x"
proof -
  have "fl x = of_int m * 2 powi (e - 52)"
    using fl_eval [OF assms(1,2)] assms(3) by simp
  also have "\<dots> = x" using assms(3) pow2_pos [of "e - 52"] by (simp add: field_simps)
  finally show ?thesis .
qed

text \<open>A natural number below \<open>2 ^ 53\<close> is a double.\<close>

lemma fl_of_nat:
  assumes "n < 2 ^ 53"
  shows "fl (real n) = real n"
proof (cases "n = 0")
  case True
  then show ?thesis by simp
next
  case False
  let ?e = "\<lfloor>log 2 (real n)\<rfloor>"
  have n: "0 < real n" using False by simp
  have b: "2 powi ?e \<le> real n" "real n < 2 powi (?e + 1)" using binade [OF n] by simp_all
  have "0 \<le> log 2 (real n)" using False by simp
  then have e0: "0 \<le> ?e" by simp
  have e52: "?e \<le> 52"
  proof (rule ccontr)
    assume "\<not> ?e \<le> 52"
    then have "53 \<le> ?e" by simp
    then have "(2::real) powi 53 \<le> 2 powi ?e" by (intro power_int_increasing) simp_all
    then have "(2::real) ^ 53 \<le> real n" using b(1) by simp
    moreover have "real n < 2 ^ 53" using assms by (metis of_nat_less_iff of_nat_numeral of_nat_power)
    ultimately show False by simp
  qed
  have "(2::real) powi (?e - 52) = 1 / 2 powi (52 - ?e)"
    using power_int_minus_divide [of "2::real" "52 - ?e"] by simp
  also have "\<dots> = 1 / 2 ^ nat (52 - ?e)" using e52 by (simp add: power_int_def)
  finally have u: "(2::real) powi (?e - 52) = 1 / 2 ^ nat (52 - ?e)" .
  have "real n / 2 powi (?e - 52) = of_int (int n * 2 ^ nat (52 - ?e))"
    unfolding u by simp
  then show ?thesis by (rule fl_exact [OF b])
qed

text \<open>
  The rounded square root of \<open>q\<close> is \<open>r\<close> when \<open>q\<close> lies between the squares of two
  numbers that round to \<open>r\<close>.
\<close>

lemma fl_sqrt_between:
  assumes "0 \<le> lo" "lo * lo \<le> q" "q \<le> hi * hi" "0 \<le> hi" "fl lo = r" "fl hi = r"
  shows "fl (sqrt q) = r"
proof -
  have "sqrt (lo * lo) \<le> sqrt q" using assms(2) by (simp only: real_sqrt_le_iff)
  then have a: "lo \<le> sqrt q" using assms(1) by simp
  have "sqrt q \<le> sqrt (hi * hi)" using assms(3) by (simp only: real_sqrt_le_iff)
  then have b: "sqrt q \<le> hi" using assms(4) by simp
  have c: "0 \<le> sqrt q" using a assms(1) by linarith
  have "fl lo \<le> fl (sqrt q)" using fl_mono [OF assms(1) a] .
  moreover have "fl (sqrt q) \<le> fl hi" using fl_mono [OF c b] .
  ultimately show ?thesis using assms(5,6) by linarith
qed

lemma silenceThreshold_eq: "silenceThreshold = 5764607523034235 / 2 ^ 60"
  unfolding silenceThreshold_def
  by (subst fl_eval [where e = "- 8"]) (simp_all add: rne_def power_int_minus)

section \<open>Frame analysis\<close>

lemma sumSquares_nonneg: "0 \<le> acc \<Longrightarrow> 0 \<le> sumSquares xs acc"
proof (induction xs arbitrary: acc)
  case Nil
  then show ?case by simp
next
  case (Cons x xs)
  have "0 \<le> fl (x * x)" by (rule fl_nonneg) simp
  then have "0 \<le> fl (acc + fl (x * x))" using Cons.prems by (intro fl_nonneg) simp
  then show ?case using Cons.IH by simp
qed

lemma sumSquares_append: "sumSquares (xs @ ys) acc = sumSquares ys (sumSquares xs acc)"
  by (induction xs arbitrary: acc) simp_all

lemma sumSquares_zeros: "fl acc = acc \<Longrightarrow> sumSquares (replicate n 0) acc = acc"
  by (induction n) simp_all

lemma sumSquares_ones:
  "k + n < 2 ^ 53 \<Longrightarrow> sumSquares (replicate n 1) (real k) = real (k + n)"
proof (induction n arbitrary: k)
  case 0
  then show ?case by simp
next
  case (Suc n)
  have one: "fl 1 = 1" using fl_of_nat [of 1] by simp
  have "fl (real k + 1) = real (Suc k)" using fl_of_nat [of "Suc k"] Suc.prems
    by (simp add: add.commute)
  then show ?case using Suc.IH [of "Suc k"] Suc.prems by (simp add: one)
qed

lemma rms_nonneg: "0 \<le> rms inputData"
proof -
  have "0 \<le> sumSquares inputData 0 / real (length inputData)"
    by (simp add: sumSquares_nonneg)
  then have "0 \<le> sqrt (fl (sumSquares inputData 0 / real (length inputData)))"
    by (simp add: fl_nonneg)
  then show ?thesis unfolding rms_def by (rule fl_nonneg)
qed

lemma vol_range: "0 \<le> r \<Longrightarrow> 0 \<le> vol r \<and> vol r \<le> 100"
proof -
  assume "0 \<le> r"
  then have "0 \<le> fl (r * 400)" by (intro fl_nonneg) simp
  then show ?thesis unfolding vol_def by (simp add: round_def)
qed

lemma vol_mono: "0 \<le> r1 \<Longrightarrow> r1 \<le> r2 \<Longrightarrow> vol r1 \<le> vol r2"
proof -
  assume "0 \<le> r1" "r1 \<le> r2"
  then have "fl (r1 * 400) \<le> fl (r2 * 400)" by (intro fl_mono) simp_all
  then show ?thesis unfolding vol_def by (simp add: round_mono min_le_iff_disj)
qed

lemma capturing_eq:
  "capturing = \<lparr> mediaStream = Some 1, audioContext = Some 1, processor = Some 1, input = None,
       analyser = Some 1, source = Some 1, hasOnStatusChange = True, hasOnVolumeChange = True,
       debugCounter = 0, lastStatus = unknown \<rparr>"
  by (simp add: capturing_def start_def newAudioRecorder_def)

lemma rms_silent: "rms (replicate 4096 0) = 0"
  by (simp add: rms_def sumSquares_zeros)

lemma rms_full_scale: "rms (replicate 4096 1) = 1"
proof -
  have "sumSquares (replicate 4096 1) (real 0) = real (0 + 4096)"
    by (rule sumSquares_ones) simp
  then have "sumSquares (replicate 4096 1) 0 = 4096" by simp
  moreover have "fl 1 = 1" using fl_of_nat [of 1] by simp
  ultimately show ?thesis by (simp add: rms_def)
qed

lemma sqrt_less_square: "0 \<le> y \<Longrightarrow> x < y * y \<Longrightarrow> sqrt x < y"
proof -
  assume "0 \<le> y" "x < y * y"
  then have "sqrt x < sqrt (y * y)" by (simp only: real_sqrt_less_iff)
  then show ?thesis using \<open>0 \<le> y\<close> by simp
qed

lemma sqrt_ge_square: "0 \<le> y \<Longrightarrow> y * y \<le> x \<Longrightarrow> y \<le> sqrt x"
proof -
  assume "0 \<le> y" "y * y \<le> x"
  then have "sqrt (y * y) \<le> sqrt x" by (simp only: real_sqrt_le_iff)
  then show ?thesis using \<open>0 \<le> y\<close> by simp
qed

lemma rms_nearSilence: "rms nearSilence = 5764607523034235 / 2 ^ 60"
proof -
  have q1: "fl (10737417 / 2 ^ 25 * (10737417 / 2 ^ 25)) = 115292123831889 / 2 ^ 50"
    by (subst fl_eval [where e = "- 4"]) (simp_all add: rne_def power_int_minus)
  have s1: "fl (0 + 115292123831889 / 2 ^ 50) = 115292123831889 / 2 ^ 50"
    by (subst fl_eval [where e = "- 4"]) (simp_all add: rne_def power_int_minus)
  have q2: "fl (5284157 / 2 ^ 35 * (5284157 / 2 ^ 35)) = 27922315200649 / 2 ^ 70"
    by (subst fl_eval [where e = "- 26"]) (simp_all add: rne_def power_int_minus)
  have s2: "fl (115292123831889 / 2 ^ 50 + 27922315200649 / 2 ^ 70) = 7378697629483767 / 2 ^ 56"
    by (subst fl_eval [where e = "- 4"]) (simp_all add: rne_def power_int_minus)
  have q3: "fl (15341213 / 2 ^ 49 * (15341213 / 2 ^ 49)) = 235352816311369 / 2 ^ 98"
    by (subst fl_eval [where e = "- 51"]) (simp_all add: rne_def power_int_minus)
  have s3: "fl (7378697629483767 / 2 ^ 56 + 235352816311369 / 2 ^ 98) = 7378697629483821 / 2 ^ 56"
    by (subst fl_eval [where e = "- 4"]) (simp_all add: rne_def power_int_minus)
  have z: "fl (7378697629483821 / 2 ^ 56) = 7378697629483821 / 2 ^ 56"
    by (subst fl_eval [where e = "- 4"]) (simp_all add: rne_def power_int_minus)
  have d: "fl (7378697629483821 / 2 ^ 56 / 4096) = 7378697629483821 / 2 ^ 68"
    by (subst fl_eval [where e = "- 16"]) (simp_all add: rne_def power_int_minus)
  have lo: "fl (23058430092136939 / 2 ^ 62) = 5764607523034235 / 2 ^ 60"
    by (subst fl_eval [where e = "- 8"]) (simp_all add: rne_def power_int_minus)
  have hi: "fl (23058430092136941 / 2 ^ 62) = 5764607523034235 / 2 ^ 60"
    by (subst fl_eval [where e = "- 8"]) (simp_all add: rne_def power_int_minus)
  have r: "fl (sqrt (7378697629483821 / 2 ^ 68)) = 5764607523034235 / 2 ^ 60"
    by (rule fl_sqrt_between [OF _ _ _ _ lo hi]) simp_all
  have "sumSquares [10737417 / 2 ^ 25, 5284157 / 2 ^ 35, 15341213 / 2 ^ 49] 0 = 7378697629483821 / 2 ^ 56"
    by (simp only: sumSquares.simps q1 s1 q2 s2 q3 s3)
  then have s: "sumSquares nearSilence 0 = 7378697629483821 / 2 ^ 56"
    by (simp only: nearSilence_def sumSquares_append sumSquares_zeros [OF z])
  have n: "real (length nearSilence) = 4096" by (simp add: nearSilence_def)
  show ?thesis by (simp only: rms_def s n d r)
qed
lemma rms_nearHalf: "rms nearHalf = 1080863910568919 / 2 ^ 58"
proof -
  have q1: "fl (4026531 / 2 ^ 24 * (4026531 / 2 ^ 24)) = 16212951893961 / 2 ^ 48"
    by (subst fl_eval [where e = "- 5"]) (simp_all add: rne_def power_int_minus)
  have s1: "fl (0 + 16212951893961 / 2 ^ 48) = 16212951893961 / 2 ^ 48"
    by (subst fl_eval [where e = "- 5"]) (simp_all add: rne_def power_int_minus)
  have q2: "fl (10653201 / 2 ^ 36 * (10653201 / 2 ^ 36)) = 113490691546401 / 2 ^ 72"
    by (subst fl_eval [where e = "- 26"]) (simp_all add: rne_def power_int_minus)
  have s2: "fl (16212951893961 / 2 ^ 48 + 113490691546401 / 2 ^ 72) = 4150517416584539 / 2 ^ 56"
    by (subst fl_eval [where e = "- 5"]) (simp_all add: rne_def power_int_minus)
  have q3: "fl (5505019 / 2 ^ 47 * (5505019 / 2 ^ 47)) = 30305234190361 / 2 ^ 94"
    by (subst fl_eval [where e = "- 50"]) (simp_all add: rne_def power_int_minus)
  have s3: "fl (4150517416584539 / 2 ^ 56 + 30305234190361 / 2 ^ 94) = 4150517416584649 / 2 ^ 56"
    by (subst fl_eval [where e = "- 5"]) (simp_all add: rne_def power_int_minus)
  have z: "fl (4150517416584649 / 2 ^ 56) = 4150517416584649 / 2 ^ 56"
    by (subst fl_eval [where e = "- 5"]) (simp_all add: rne_def power_int_minus)
  have d: "fl (4150517416584649 / 2 ^ 56 / 4096) = 4150517416584649 / 2 ^ 68"
    by (subst fl_eval [where e = "- 17"]) (simp_all add: rne_def power_int_minus)
  have lo: "fl (34587645138205407 / 2 ^ 63) = 1080863910568919 / 2 ^ 58"
    by (subst fl_eval [where e = "- 9"]) (simp_all add: rne_def power_int_minus)
  have hi: "fl (34587645138205409 / 2 ^ 63) = 1080863910568919 / 2 ^ 58"
    by (subst fl_eval [where e = "- 9"]) (simp_all add: rne_def power_int_minus)
  have r: "fl (sqrt (4150517416584649 / 2 ^ 68)) = 1080863910568919 / 2 ^ 58"
    by (rule fl_sqrt_between [OF _ _ _ _ lo hi]) simp_all
  have "sumSquares [4026531 / 2 ^ 24, 10653201 / 2 ^ 36, 5505019 / 2 ^ 47] 0 = 4150517416584649 / 2 ^ 56"
    by (simp only: sumSquares.simps q1 s1 q2 s2 q3 s3)
  then have s: "sumSquares nearHalf 0 = 4150517416584649 / 2 ^ 56"
    by (simp only: nearHalf_def sumSquares_append sumSquares_zeros [OF z])
  have n: "real (length nearHalf) = 4096" by (simp add: nearHalf_def)
  show ?thesis by (simp only: rms_def s n d r)
qed

lemma meanSquare_nearSilence:
  "sum_list (map (\<lambda>x. x * x) nearSilence) / real (length nearSilence) =
     32451855365842672678301031497 / 2 ^ 110"
  by (simp add: nearSilence_def sum_list_replicate)

lemma meanSquare_nearHalf:
  "sum_list (map (\<lambda>x. x * x) nearHalf) / real (length nearHalf) =
     1140885540205406461342777369 / 2 ^ 106"
  by (simp add: nearHalf_def sum_list_replicate)

lemma spectrumSums_total:
  "snd (spectrumSums i ds (w, t)) = t + sum_list (map unat ds)"
  by (induction ds arbitrary: i w t) simp_all

lemma centroid_zero_energy:
  assumes "sum_list (map unat dataArray) = 0"
  shows "centroid dataArray = 0"
proof -
  obtain w t where wt: "spectrumSums 0 dataArray (0, 0) = (w, t)"
    by (cases "spectrumSums 0 dataArray (0, 0)")
  have "t = 0" using spectrumSums_total [of 0 dataArray 0 0] wt assms by simp
  then show ?thesis unfolding centroid_def wt by simp
qed

lemma centroid_silent_spectrum: "centroid (replicate 256 0) = 0"
proof -
  have "sum_list (map unat (replicate 256 (0 :: 8 word))) = 0"
    by (simp add: sum_list_replicate)
  then show ?thesis by (rule centroid_zero_energy)
qed

text \<open>
  Claim C5, as the code has it. A frame for which the RMS the code computes, in double
  precision and in the order of the samples, is below the silence threshold, the double
  nearest to \<open>0.005\<close>, is labelled \<open>silence\<close> whatever the spectrum snapshot holds; the
  volume is sent to the volume callback as for any other frame, and the recorder is left as
  it was.
\<close>

theorem analyzeAudio_silence_dominates:
  assumes "inputData \<noteq> []" and "rms inputData < silenceThreshold"
  shows "analyzeAudio inputData dataArray r =
           (silence,
            (if hasOnVolumeChange r
             then [VolumeChange (min 100 (round (fl (rms inputData * 400))))] else []),
            r)"
  using assms by (simp add: analyzeAudio_def Let_def vol_def)

theorem analyzeAudio_silence_dominates_witness:
  "replicate 4096 (0 :: real) \<noteq> [] \<and> rms (replicate 4096 0) < silenceThreshold
   \<and> analyzeAudio (replicate 4096 0) (replicate 256 255) capturing = (silence, [VolumeChange 0], capturing)"
proof -
  have h1: "replicate 4096 (0 :: real) \<noteq> []" by simp
  have h2: "rms (replicate 4096 0) < silenceThreshold" by (simp add: rms_silent silenceThreshold_eq)
  from analyzeAudio_silence_dominates [OF h1 h2, of "replicate 256 255" capturing] h2
  show ?thesis by (simp add: rms_silent capturing_eq)
qed

text \<open>
  The frame \<open>nearSilence\<close>: its root mean square is below \<open>0.005\<close>, the value the code
  computes for it is the threshold itself, and the label is \<open>speech\<close>.
\<close>

theorem analyzeAudio_silence_dominates_counterexample:
  "rootMeanSquare nearSilence < 5 / 1000
   \<and> rms nearSilence = silenceThreshold
   \<and> fst (analyzeAudio nearSilence (replicate 256 0) capturing) = speech"
proof -
  have "rootMeanSquare nearSilence < 5 / 1000"
    unfolding rootMeanSquare_def meanSquare_nearSilence by (rule sqrt_less_square) simp_all
  moreover have e: "rms nearSilence = silenceThreshold"
    by (simp only: rms_nearSilence silenceThreshold_eq)
  moreover have "fst (analyzeAudio nearSilence (replicate 256 0) capturing) = speech"
    by (simp add: analyzeAudio_def Let_def e capturing_eq centroid_silent_spectrum)
  ultimately show ?thesis by simp
qed

text \<open>
  Claim C6, as the code has it. The volume sent for a frame is
  \<open>min 100 (round p)\<close>, where \<open>p\<close> is the double nearest to the product of \<open>400\<close> and the
  RMS the code computes; it lies between \<open>0\<close> and \<open>100\<close>, and a frame with a larger
  computed RMS never gets a smaller volume.
\<close>

theorem analyzeAudio_volume:
  assumes "inputData \<noteq> []" and "louder \<noteq> []" and "hasOnVolumeChange r"
  shows "fst (snd (analyzeAudio inputData dataArray r)) = [VolumeChange (vol (rms inputData))]
         \<and> vol (rms inputData) = min 100 (round (fl (rms inputData * 400)))
         \<and> 0 \<le> vol (rms inputData) \<and> vol (rms inputData) \<le> 100
         \<and> (rms inputData \<le> rms louder \<longrightarrow> vol (rms inputData) \<le> vol (rms louder))"
proof -
  have "fst (snd (analyzeAudio inputData dataArray r)) = [VolumeChange (vol (rms inputData))]"
    using assms(3) by (simp add: analyzeAudio_def Let_def)
  moreover have "vol (rms inputData) = min 100 (round (fl (rms inputData * 400)))"
    by (simp add: vol_def)
  moreover have "0 \<le> vol (rms inputData) \<and> vol (rms inputData) \<le> 100"
    using vol_range [OF rms_nonneg] .
  moreover have "rms inputData \<le> rms louder \<longrightarrow> vol (rms inputData) \<le> vol (rms louder)"
    using vol_mono [OF rms_nonneg] by blast
  ultimately show ?thesis by blast
qed

theorem analyzeAudio_volume_witness:
  "rms (replicate 4096 0) \<le> rms (replicate 4096 1)
   \<and> fst (snd (analyzeAudio (replicate 4096 0) (replicate 256 255) capturing)) = [VolumeChange 0]
   \<and> vol (rms (replicate 4096 0)) = 0 \<and> vol (rms (replicate 4096 1)) = 100"
proof -
  have h1: "replicate 4096 (0 :: real) \<noteq> []" and h2: "replicate 4096 (1 :: real) \<noteq> []" by simp_all
  have h3: "hasOnVolumeChange capturing" by (simp add: capturing_eq)
  have f: "fl 400 = 400" using fl_of_nat [of 400] by simp
  from analyzeAudio_volume [OF h1 h2 h3, of "replicate 256 255"]
  show ?thesis by (simp add: rms_silent rms_full_scale vol_def f)
qed

text \<open>
  The frame \<open>nearHalf\<close>: the code computes the RMS \<open>r\<close>, the double nearest to
  \<open>0.00375\<close> and a little less than it. The product \<open>r * 400\<close> is less than \<open>1.5\<close> and
  rounds to the double \<open>1.5\<close>, so the volume sent is \<open>2\<close>, where
  \<open>min 100 (round (r * 400))\<close> is \<open>1\<close>, as it is for the root mean square of the frame.
\<close>

theorem analyzeAudio_volume_counterexample:
  "fst (snd (analyzeAudio nearHalf (replicate 256 0) capturing)) = [VolumeChange 2]
   \<and> min 100 (round (rms nearHalf * 400)) = 1
   \<and> min 100 (round (rootMeanSquare nearHalf * 400)) = 1"
proof -
  have p: "fl (1080863910568919 / 2 ^ 58 * 400) = 3 / 2"
    by (subst fl_eval [where e = 0]) (simp_all add: rne_def power_int_minus)
  have "vol (rms nearHalf) = 2"
    by (simp only: vol_def rms_nearHalf p) (simp add: round_def)
  then have "fst (snd (analyzeAudio nearHalf (replicate 256 0) capturing)) = [VolumeChange 2]"
    by (simp add: analyzeAudio_def Let_def capturing_eq)
  moreover have "min 100 (round (rms nearHalf * 400)) = 1"
    by (simp only: rms_nearHalf) (simp add: round_def)
  moreover have "min 100 (round (rootMeanSquare nearHalf * 400)) = 1"
  proof -
    have lo: "1 / 800 \<le> rootMeanSquare nearHalf"
      unfolding rootMeanSquare_def meanSquare_nearHalf by (rule sqrt_ge_square) simp_all
    have hi: "rootMeanSquare nearHalf < 3 / 800"
      unfolding rootMeanSquare_def meanSquare_nearHalf by (rule sqrt_less_square) simp_all
    have "round (rootMeanSquare nearHalf * 400) = 1"
      unfolding round_def using lo hi by (simp add: floor_eq_iff)
    then show ?thesis by simp
  qed
  ultimately show ?thesis by simp
qed

text \<open>
  Claim C9, as the code has it. For a spectrum snapshot without energy the centroid is taken
  as \<open>0\<close> and nothing is divided; the frame is then labelled by its loudness alone:
  \<open>silence\<close> when the RMS the code computes is below the silence threshold and \<open>speech\<close>
  from it on, never \<open>music_noise\<close>.
\<close>

theorem analyzeAudio_zero_energy:
  assumes "inputData \<noteq> []" and "sum_list (map unat dataArray) = 0"
  shows "centroid dataArray = 0
         \<and> fst (analyzeAudio inputData dataArray r) =
             (if rms inputData < silenceThreshold then silence else speech)"
  using assms(1) centroid_zero_energy [OF assms(2)] by (simp add: analyzeAudio_def Let_def)

theorem analyzeAudio_zero_energy_witness:
  "sum_list (map unat (replicate 256 (0 :: 8 word))) = 0
   \<and> fst (analyzeAudio (replicate 4096 0) (replicate 256 0) capturing) = silence
   \<and> fst (analyzeAudio nearSilence (replicate 256 0) capturing) = speech"
proof -
  have h1: "replicate 4096 (0 :: real) \<noteq> []" and h2: "nearSilence \<noteq> []" by (simp_all add: nearSilence_def)
  have h3: "sum_list (map unat (replicate 256 (0 :: 8 word))) = 0"
    by (simp add: sum_list_replicate)
  have e: "\<not> rms nearSilence < silenceThreshold"
    by (simp add: rms_nearSilence silenceThreshold_eq)
  from analyzeAudio_zero_energy [OF h1 h3, of capturing]
       analyzeAudio_zero_energy [OF h2 h3, of capturing] e
  show ?thesis by (simp add: rms_silent silenceThreshold_eq)
qed

text \<open>
  A frame of 4096 samples of full amplitude with a snapshot of 256 empty bins: the total
  energy of the snapshot is \<open>0\<close>, and the label is \<open>speech\<close>, not \<open>silence\<close>.
\<close>

theorem analyzeAudio_zero_energy_counterexample:
  "sum_list (map unat (replicate 256 (0 :: 8 word))) = 0
   \<and> fst (analyzeAudio (replicate 4096 1) (replicate 256 0) capturing) = speech
   \<and> fst (analyzeAudio (replicate 4096 1) (replicate 256 0) capturing) \<noteq> silence"
proof -
  have e: "sum_list (map unat (replicate 256 (0 :: 8 word))) = 0"
    by (simp add: sum_list_replicate)
  have "fst (analyzeAudio (replicate 4096 1) (replicate 256 0) capturing) = speech"
    using centroid_zero_energy [OF e]
    by (simp add: analyzeAudio_def Let_def rms_full_scale silenceThreshold_eq capturing_eq)
  then show ?thesis using e by simp
qed

section \<open>Inbound messages\<close>

lemma setState_apply:
  "setState f (tr, fx, c) = (tr @ [f (state c)], fx, c\<lparr>state := f (state c)\<rparr>)"
  by (simp add: setState_def)

lemma perform_apply: "perform es (tr, fx, c) = (tr, fx @ es, c)"
  by (simp add: perform_def)

lemmas start_eval = usePushToTalk_def startRecording_def tryStart_def setState_apply
  clearTimer_def getServices_def newDeepgramService_def newAudioRecorder_def start_def stop_def
  connect_def isConnected_def catchStart_def Let_def

lemma listening_eq:
  "listening =
     \<lparr> state = \<lparr> isRecording = True, transcript = [], interimTranscript = [], error = None,
                 connectionState = connected, autoInsert = False, history = [],
                 statusMessage = None, audioStatus = silence, sessionDuration = 0,
                 wordCount = 0, charCount = 0, volume = 0 \<rparr>,
       recorderRef = Some capturing,
       deepgramRef = Some \<lparr> socket = Some OPEN, apiKey = ''key'' \<rparr>,
       startTimeRef = 1000, timerIntervalRef = Some 7, apiKeyProp = ''key'' \<rparr>"
  by (simp add: listening_def env_ok_def capturing_def start_eval)

lemma countWords_examples: "countWords '' fo'' = 1" "countWords ''hello'' = 1"
  by (simp_all add: countWords_def trim_def isWhiteSpace_def)

lemma pendingFo_eq:
  "pendingFo = listening\<lparr>state := (state listening)\<lparr>interimTranscript := ''fo'',
                                    wordCount := 1, charCount := 3\<rparr>\<rparr>"
  by (simp add: pendingFo_def onTranscript_def setState_apply transcriptUpdate_def Let_def
      listening_eq countWords_examples)

text \<open>
  Claim C10. A message of the recognised shape whose first alternative has the empty string
  as transcript leads to no call of the transcript callback, final or not: the controller
  is left as it is, no state is set, and a pending interim transcript stays.
\<close>

theorem empty_transcript_no_callback:
  assumes "readMember ''channel'' data = Some channel"
      and "readMember ''alternatives'' channel = Some alternatives"
      and "index0 alternatives = Some alt"
      and "readMember ''transcript'' alt = Some (JString [])"
  shows "onmessage (Parsed data) = NoCallback \<and> receive (Parsed data) c = Some ([], [], c)"
proof -
  have "data \<noteq> JNull" using assms(1) by auto
  then have "onmessage (Parsed data) = NoCallback"
    using assms by (cases data) (simp_all add: onmessage_def)
  then show ?thesis by (simp add: receive_def)
qed

theorem empty_transcript_no_callback_witness:
  "onmessage (Parsed emptyFinal) = NoCallback
   \<and> receive (Parsed emptyFinal) pendingFo = Some ([], [], pendingFo)
   \<and> interimTranscript (state pendingFo) = ''fo''"
proof -
  have h1: "readMember ''channel'' emptyFinal
              = Some (JObject [(''alternatives'', JArray [emptyAlternative])])"
    by (simp add: emptyFinal_def)
  have h2: "readMember ''alternatives'' (JObject [(''alternatives'', JArray [emptyAlternative])])
              = Some (JArray [emptyAlternative])"
    by simp
  have h3: "index0 (JArray [emptyAlternative]) = Some emptyAlternative" by simp
  have h4: "readMember ''transcript'' emptyAlternative = Some (JString [])"
    by (simp add: emptyAlternative_def)
  from empty_transcript_no_callback [OF h1 h2 h3 h4, of pendingFo]
  show ?thesis by (simp add: pendingFo_eq)
qed

section \<open>Transcript events\<close>

lemma onTranscript_final_plain:
  assumes "\<not> isClearCommand text"
  shows "onTranscript text True ([], [], c) =
           ([transcriptUpdate text True (state c)], [],
            c\<lparr>state := transcriptUpdate text True (state c)\<rparr>)"
  using assms by (simp add: onTranscript_def setState_apply)

lemma transcriptUpdate_final:
  "transcript (transcriptUpdate text True s) =
     (if transcript s \<noteq> [] then transcript s @ '' '' @ text else text)"
  "interimTranscript (transcriptUpdate text True s) = []"
  by (simp_all add: transcriptUpdate_def Let_def)

lemma onTranscript_final_interim:
  "interimTranscript (state (snd (snd (onTranscript text True ([], [], c))))) = []"
  by (simp add: onTranscript_def setState_apply transcriptUpdate_def Let_def)

lemma plain_words: "\<not> isClearCommand ''foo''" "\<not> isClearCommand ''bar''"
  by (simp_all add: isClearCommand_def toLowerCase_def toLowerCase_char_def trim_def
      isWhiteSpace_def)

text \<open>
  Claim C8. Two final events in a row, with texts \<open>a\<close> then \<open>b\<close> that are not voice
  commands, on an empty committed transcript: the committed text is \<open>a\<close> after the first,
  with no leading space, and \<open>a\<close>, one space, \<open>b\<close> after the second; the pending text is
  empty after each. For \<open>foo\<close> and \<open>bar\<close> this is \<open>foo bar\<close>. The pending text is empty
  after any final event, a voice command or not.
\<close>

theorem final_events_space_joined:
  assumes "a \<noteq> []" and "\<not> isClearCommand a" and "\<not> isClearCommand b"
      and "transcript (state c) = []"
  shows "(let (tr, fx, c') = exec [TranscriptEvent a True, TranscriptEvent b True] ([], [], c)
          in map transcript tr = [a, a @ '' '' @ b] \<and> map interimTranscript tr = [[], []]
             \<and> transcript (state c') = a @ '' '' @ b \<and> interimTranscript (state c') = [])
         \<and> interimTranscript (state (snd (snd (step (TranscriptEvent x True) c0)))) = []"
  using assms
  by (simp add: onTranscript_final_plain transcriptUpdate_final onTranscript_final_interim)

theorem final_events_space_joined_witness:
  "(let (tr, fx, c') = exec [TranscriptEvent ''foo'' True, TranscriptEvent ''bar'' True]
                         ([], [], pendingFo)
    in map transcript tr = [''foo'', ''foo bar''] \<and> map interimTranscript tr = [[], []]
       \<and> transcript (state c') = ''foo bar'' \<and> interimTranscript (state c') = [])
   \<and> interimTranscript (state (snd (snd (step (TranscriptEvent ''clear transcript'' True)
          pendingFo)))) = []"
proof -
  have h1: "''foo'' \<noteq> []" by simp
  have h4: "transcript (state pendingFo) = []" by (simp add: pendingFo_eq listening_eq)
  from final_events_space_joined [where x = "''clear transcript''" and ?c0.0 = pendingFo,
      OF h1 plain_words(1) plain_words(2) h4]
  show ?thesis by simp
qed

section \<open>Stopping a session\<close>

lemma trim_snoc_ws:
  assumes "isWhiteSpace c"
  shows "trim (s @ [c]) = trim s"
proof (cases "\<forall>x\<in>set s. isWhiteSpace x")
  case True
  then have d: "dropWhile isWhiteSpace s = []" by simp
  from True assms have d2: "dropWhile isWhiteSpace (s @ [c]) = []" by simp
  show ?thesis unfolding trim_def d d2 by simp
next
  case False
  then have "dropWhile isWhiteSpace (s @ [c]) = dropWhile isWhiteSpace s @ [c]"
    by (simp add: dropWhile_append)
  with assms show ?thesis by (simp add: trim_def)
qed

lemma isWhiteSpace_space: "isWhiteSpace CHR '' ''"
  by (simp add: isWhiteSpace_def)

lemma trim_fullTextOf:
  "trim (fullTextOf s) = trim (transcript s @ '' '' @ interimTranscript s)"
  unfolding fullTextOf_def using trim_snoc_ws [OF isWhiteSpace_space, of "transcript s"] by simp

lemma countWords_fullTextOf:
  "countWords (fullTextOf s) = countWords (transcript s @ '' '' @ interimTranscript s)"
  unfolding countWords_def by (simp only: trim_fullTextOf)

lemma handleStop_state:
  "handleStop reason clock c = (tr, fx, c') \<Longrightarrow>
     tr = [stopUpdate reason clock (startTimeRef c) (state c)]
     \<and> state c' = stopUpdate reason clock (startTimeRef c) (state c)"
  unfolding handleStop_def clearTimer_def getServices_def
  by (auto simp: setState_apply perform_apply Let_def split: option.splits prod.splits if_splits)

lemma talking_eq:
  "talking = listening\<lparr>state := (state listening)\<lparr>transcript := ''hello'', wordCount := 1,
                                   charCount := 5, sessionDuration := 5\<rparr>\<rparr>"
  by (simp add: talking_def onTranscript_def setState_apply transcriptUpdate_def Let_def
      listening_eq countWords_examples isClearCommand_def toLowerCase_def toLowerCase_char_def
      trim_def isWhiteSpace_def tick_def)

text \<open>
  Claim C4. Stopping a recording session puts one new record in front of the history when
  the committed and the pending text, joined by a space and trimmed, are not empty, and
  leaves the history as it is when they are; the record carries that trimmed text.
\<close>

theorem handleStop_history:
  assumes "isRecording (state c)"
  shows "(let full = transcript (state c) @ '' '' @ interimTranscript (state c)
          in history (state (snd (snd (handleStop reason clock c)))) =
               (if trim full = [] then history (state c)
                else \<lparr> rec_id = toString (nowId clock), rec_timestamp = nowTimestamp clock,
                       rec_text = trim full,
                       rec_duration = real_of_int (nowDuration clock - startTimeRef c) / 1000,
                       rec_wordCount = countWords full \<rparr> # history (state c)))"
proof -
  obtain tr fx c' where h: "handleStop reason clock c = (tr, fx, c')"
    by (cases "handleStop reason clock c")
  from handleStop_state [OF h]
  have "state c' = stopUpdate reason clock (startTimeRef c) (state c)" by simp
  then show ?thesis using assms h
    by (simp add: stopUpdate_def Let_def trim_fullTextOf countWords_fullTextOf)
qed

theorem handleStop_history_witness:
  "isRecording (state talking) \<and> isRecording (state listening)
   \<and> history (state (snd (snd (handleStop None clock_6s talking)))) =
       [\<lparr> rec_id = ''6001'', rec_timestamp = 6001, rec_text = ''hello'', rec_duration = 5,
          rec_wordCount = 1 \<rparr>]
   \<and> history (state (snd (snd (handleStop None clock_6s listening)))) = []"
proof -
  have h1: "isRecording (state talking)" by (simp add: talking_eq listening_eq)
  have h2: "isRecording (state listening)" by (simp add: listening_eq)
  have t: "trim ''hello '' = ''hello''" "trim '' '' = []" "countWords ''hello '' = 1"
    by (simp_all add: trim_def isWhiteSpace_def countWords_def)
  have n: "toString 6001 = ''6001''"
    by (simp add: toString_def char_of_eq_iff)
  have s: "transcript (state talking) = ''hello''" "interimTranscript (state talking) = []"
    "history (state talking) = []" "startTimeRef talking = 1000"
    "transcript (state listening) = []" "interimTranscript (state listening) = []"
    "history (state listening) = []"
    by (simp_all add: talking_eq listening_eq)
  from handleStop_history [OF h1, of None clock_6s] handleStop_history [OF h2, of None clock_6s]
  show ?thesis using h1 h2 by (simp add: s t n clock_6s_def)
qed


lemma orphaned_eq:
  "orphaned =
     \<lparr> state = \<lparr> isRecording = False, transcript = [], interimTranscript = [],
                 error = Some ''WebSocket connection failed'',
                 connectionState = disconnected, autoInsert = False, history = [],
                 statusMessage = None, audioStatus = silence, sessionDuration = 0,
                 wordCount = 0, charCount = 0, volume = 0 \<rparr>,
       recorderRef = Some capturing,
       deepgramRef = Some \<lparr> socket = Some CLOSED, apiKey = ''key'' \<rparr>,
       startTimeRef = 1000, timerIntervalRef = Some 7, apiKeyProp = ''key'' \<rparr>"
  by (simp add: orphaned_def env_refused_def capturing_def start_eval)

lemma handleStop_idle_effects:
  assumes "\<not> isRecording (state c)" "holdsNothing c"
  shows "fst (snd (handleStop reason clock c)) = []"
  using assms unfolding handleStop_def clearTimer_def getServices_def holdsNothing_def
  by (auto simp: setState_apply perform_apply Let_def stopClipboard_def stop_def disconnect_def
      newAudioRecorder_def newDeepgramService_def split: option.splits prod.splits if_splits)

text \<open>
  Claim C7, as the code has it. Stopping when no recording is in progress leaves the React
  state as it is. The recorder's \<open>stop\<close> and the client's \<open>disconnect\<close> are called all
  the same, and the timer is cleared: nothing happens to the platform when no timer, no
  capture handle and no open socket is held, as before the first start and after a stop.
  The recorder's \<open>stop\<close> on a recorder that never started does nothing and does not fail.
\<close>

theorem handleStop_not_recording:
  assumes "\<not> isRecording (state c)"
  shows "fst (handleStop reason clock c) = [state c]
         \<and> state (snd (snd (handleStop reason clock c))) = state c
         \<and> (holdsNothing c \<longrightarrow> fst (snd (handleStop reason clock c)) = [])
         \<and> stop (newAudioRecorder onStatusChange onVolumeChange) =
             ([], newAudioRecorder onStatusChange onVolumeChange)"
proof -
  obtain tr fx c' where h: "handleStop reason clock c = (tr, fx, c')"
    by (cases "handleStop reason clock c")
  from handleStop_state [OF h] assms have "tr = [state c] \<and> state c' = state c"
    by (simp add: stopUpdate_def)
  moreover have "holdsNothing c \<longrightarrow> fx = []"
    using handleStop_idle_effects [OF assms, of reason clock] h by simp
  moreover have "stop (newAudioRecorder onStatusChange onVolumeChange) =
             ([], newAudioRecorder onStatusChange onVolumeChange)"
    by (simp add: stop_def newAudioRecorder_def)
  ultimately show ?thesis using h by simp
qed

theorem handleStop_not_recording_witness:
  "\<not> isRecording (state (usePushToTalk ''key'')) \<and> holdsNothing (usePushToTalk ''key'')
   \<and> fst (handleStop None clock_6s (usePushToTalk ''key'')) = [state (usePushToTalk ''key'')]
   \<and> state (snd (snd (handleStop None clock_6s (usePushToTalk ''key'')))) =
       state (usePushToTalk ''key'')
   \<and> fst (snd (handleStop None clock_6s (usePushToTalk ''key''))) = []
   \<and> stop (newAudioRecorder True True) = ([], newAudioRecorder True True)"
proof -
  have h1: "\<not> isRecording (state (usePushToTalk ''key''))" by (simp add: usePushToTalk_def)
  have h2: "holdsNothing (usePushToTalk ''key'')"
    by (simp add: usePushToTalk_def holdsNothing_def)
  from handleStop_not_recording [OF h1, of None clock_6s True True] h1 h2
  show ?thesis by simp
qed

text \<open>
  After a start whose handshake failed the controller is not recording, and the capture
  that had started is still held; stopping then clears the timer, stops the stream and closes
  the audio graph.
\<close>

theorem handleStop_not_recording_counterexample:
  "\<not> isRecording (state orphaned)
   \<and> fst (snd (handleStop None clock_6s orphaned)) =
       [ClearInterval 7, TrackStop 1, ProcessorDisconnect 1, ContextClose 1]"
  by (simp add: orphaned_eq capturing_eq handleStop_def clearTimer_def perform_apply
      setState_apply stopClipboard_def getServices_def stop_def disconnect_def Let_def)

section \<open>Starting while recording\<close>

lemmas start_defs = startRecording_def tryStart_def catchStart_def clearTimer_def getServices_def
  setState_apply start_def stop_def connect_def isConnected_def Let_def

text \<open>
  Claim C2, as the code has it. Starting while a recording is in progress is not guarded
  and not a no-op: the session timer starts again (the started-at timestamp is the current
  time, the duration counter is \<open>0\<close>, a new interval timer runs), and the recorder stops
  the stream it holds before it opens the new one, so it holds one stream, the new one. A
  socket that is open is used again: none is created. The state stays recording.
\<close>

theorem startRecording_while_recording:
  assumes "isRecording (state c)"
      and "recorderRef c = Some r" and "mediaStream r = Some h"
      and "deepgramRef c = Some d" and "isConnected d"
      and "captureOutcome env = CaptureStarted h' ctx rate"
  shows "sessionDuration (state (snd (snd (startRecording env c)))) = 0
         \<and> startTimeRef (snd (snd (startRecording env c))) = now env
         \<and> timerIntervalRef (snd (snd (startRecording env c))) = Some (timerId env)
         \<and> isRecording (state (snd (snd (startRecording env c))))
         \<and> connectionState (state (snd (snd (startRecording env c)))) = connectionState (state c)
         \<and> filter isStreamEffect (fst (snd (startRecording env c))) = [TrackStop h, OpenStream h']
         \<and> map_option mediaStream (recorderRef (snd (snd (startRecording env c)))) = Some (Some h')
         \<and> filter isSocketEffect (fst (snd (startRecording env c))) = []
         \<and> deepgramRef (snd (snd (startRecording env c))) = Some d"
  using assms
  by (auto simp: start_defs split: option.splits)

theorem startRecording_while_recording_witness:
  "isRecording (state talking)
   \<and> sessionDuration (state talking) = 5 \<and> startTimeRef talking = 1000
   \<and> sessionDuration (state (snd (snd (startRecording env_again talking)))) = 0
   \<and> startTimeRef (snd (snd (startRecording env_again talking))) = 9000
   \<and> filter isStreamEffect (fst (snd (startRecording env_again talking)))
       = [TrackStop 1, OpenStream 2]
   \<and> filter isSocketEffect (fst (snd (startRecording env_again talking))) = []"
proof -
  have h1: "isRecording (state talking)" by (simp add: talking_eq listening_eq)
  have h2: "recorderRef talking = Some capturing" by (simp add: talking_eq listening_eq)
  have h3: "mediaStream capturing = Some 1" by (simp add: capturing_eq)
  have h4: "deepgramRef talking = Some \<lparr> socket = Some OPEN, apiKey = ''key'' \<rparr>"
    by (simp add: talking_eq listening_eq)
  have h5: "isConnected \<lparr> socket = Some OPEN, apiKey = ''key'' \<rparr>" by (simp add: isConnected_def)
  have h6: "captureOutcome env_again = CaptureStarted 2 2 48000" by (simp add: env_again_def)
  have s: "sessionDuration (state talking) = 5" "startTimeRef talking = 1000"
    "now env_again = 9000"
    by (simp_all add: talking_eq listening_eq env_again_def)
  from startRecording_while_recording [OF h1 h2 h3 h4 h5 h6] h1 s
  show ?thesis by simp
qed

text \<open>
  The recording controller \<open>talking\<close>, started at time \<open>1000\<close> with five seconds on its
  counter, is started again at time \<open>9000\<close>: the timestamp and the counter change, and the
  capture is torn down and opened anew.
\<close>

theorem startRecording_while_recording_counterexample:
  "isRecording (state talking)
   \<and> startTimeRef talking = 1000
   \<and> startTimeRef (snd (snd (startRecording env_again talking))) = 9000
   \<and> sessionDuration (state talking) = 5
   \<and> sessionDuration (state (snd (snd (startRecording env_again talking)))) = 0
   \<and> fst (snd (startRecording env_again talking)) =
       [ClearInterval 7, SetInterval 8, TrackStop 1, ProcessorDisconnect 1, ContextClose 1,
        OpenStream 2]
   \<and> snd (snd (startRecording env_again talking)) \<noteq> talking"
proof -
  have "startTimeRef (snd (snd (startRecording env_again talking))) = 9000
     \<and> sessionDuration (state (snd (snd (startRecording env_again talking)))) = 0
     \<and> fst (snd (startRecording env_again talking)) =
       [ClearInterval 7, SetInterval 8, TrackStop 1, ProcessorDisconnect 1, ContextClose 1,
        OpenStream 2]"
    by (simp add: talking_eq listening_eq capturing_eq env_again_def start_defs)
  moreover have "isRecording (state talking) \<and> startTimeRef talking = 1000
     \<and> sessionDuration (state talking) = 5"
    by (simp add: talking_eq listening_eq)
  ultimately show ?thesis by auto
qed

section \<open>Connection state\<close>

lemma changesAlong_join:
  assumes "xs \<noteq> []" and "changesAlong E (map g xs)"
      and "changesAlong E (map g (last xs # ys))"
  shows "changesAlong E (map g (xs @ ys))"
  using assms
proof (induction xs rule: list_nonempty_induct)
  case (single x)
  then show ?case by simp
next
  case (cons x xs)
  then show ?case by (cases xs) simp_all
qed

lemma traceOk_init: "traceOk (state c) ([], [], c)"
  by (simp add: traceOk_def)

lemma traceOk_setState:
  assumes "traceOk s0 (tr, fx, c)"
      and "connectionState (state c) = connectionState (f (state c))
           \<or> codeEdge (connectionState (state c)) (connectionState (f (state c)))"
  shows "traceOk s0 (setState f (tr, fx, c))"
proof -
  have l: "state c = last (s0 # tr)"
    and ch: "changesAlong codeEdge (map connectionState (s0 # tr))"
    using assms(1) by (simp_all add: traceOk_def)
  have "changesAlong codeEdge (map connectionState (last (s0 # tr) # [f (state c)]))"
    using assms(2) l by auto
  then have "changesAlong codeEdge (map connectionState ((s0 # tr) @ [f (state c)]))"
    using changesAlong_join [of "s0 # tr" codeEdge connectionState "[f (state c)]"] ch by blast
  then show ?thesis by (simp add: traceOk_def setState_apply)
qed

lemma traceOk_effects:
  "traceOk s0 (tr, fx, c) \<Longrightarrow> state c' = state c \<Longrightarrow> traceOk s0 (tr, fx', c')"
  by (simp add: traceOk_def)

lemma traceOk_trans:
  assumes "traceOk s0 (tr1, fx1, c1)" and "traceOk (state c1) (tr2, fx2, c2)"
  shows "traceOk s0 (tr1 @ tr2, fx, c2)"
proof -
  have l: "state c1 = last (s0 # tr1)"
    and a: "changesAlong codeEdge (map connectionState (s0 # tr1))"
    and b: "changesAlong codeEdge (map connectionState (state c1 # tr2))"
    and l2: "state c2 = last (state c1 # tr2)"
    using assms by (simp_all add: traceOk_def)
  have "changesAlong codeEdge (map connectionState (last (s0 # tr1) # tr2))"
    using b l by simp
  then have "changesAlong codeEdge (map connectionState ((s0 # tr1) @ tr2))"
    using changesAlong_join [of "s0 # tr1" codeEdge connectionState tr2] a by blast
  moreover have "state c2 = last (s0 # tr1 @ tr2)"
    using l l2 by (cases tr2) simp_all
  ultimately show ?thesis by (simp add: traceOk_def)
qed

lemma phaseOk_iff:
  "phaseOk s0 ((tr, fx, c), reached) \<longleftrightarrow>
     traceOk s0 (tr, fx, c) \<and>
     (case reached of
        None \<Rightarrow> settled (state c)
      | Some w \<Rightarrow> isRecording (state c) \<and> connectionState (state c) = stateWhile w)"
  by (simp add: phaseOk_def traceOk_def)

lemma clearTimer_apply: "\<exists>fx'. clearTimer (tr, fx, c) = (tr, fx', c)"
  by (simp add: clearTimer_def split: option.splits)

lemma onError_keeps:
  "traceOk s0 (tr, fx, c) \<Longrightarrow>
   \<exists>tr' c'. onError errs (tr, fx, c) = (tr', fx, c') \<and> traceOk s0 (tr', fx, c')
     \<and> connectionState (state c') = connectionState (state c)
     \<and> isRecording (state c') = isRecording (state c)"
proof (induction errs arbitrary: tr c)
  case Nil
  then show ?case by simp
next
  case (Cons err errs)
  let ?f = "\<lambda>prev. prev\<lparr>error := Some err\<rparr>"
  have "traceOk s0 (tr @ [?f (state c)], fx, c\<lparr>state := ?f (state c)\<rparr>)"
    using traceOk_setState [of s0 tr fx c ?f] Cons.prems by (simp add: setState_apply)
  from Cons.IH [OF this] show ?case by (simp add: setState_apply)
qed

text \<open>The \<open>catch\<close> block ends a call in a state that says \<open>disconnected\<close>.\<close>

lemma catchStart_ok:
  assumes "traceOk s0 (tr, fx, c)"
  shows "phaseOk s0 (catchStart message (tr, fx, c), None)"
proof -
  let ?f = "\<lambda>prev. prev\<lparr>isRecording := False, connectionState := disconnected,
                    error := Some (if message \<noteq> [] then message else ''Failed to start recording'')\<rparr>"
  have e: "connectionState (state c) = connectionState (?f (state c))
           \<or> codeEdge (connectionState (state c)) (connectionState (?f (state c)))"
    by (cases "connectionState (state c)") (simp_all add: codeEdge_def)
  have t: "traceOk s0 (tr @ [?f (state c)], fx, c\<lparr>state := ?f (state c)\<rparr>)"
    using traceOk_setState [of s0 tr fx c ?f] assms e by (simp add: setState_apply)
  obtain fx' where ct: "clearTimer (tr @ [?f (state c)], fx, c\<lparr>state := ?f (state c)\<rparr>) =
       (tr @ [?f (state c)], fx', c\<lparr>state := ?f (state c)\<rparr>)"
    using clearTimer_apply by blast
  have "catchStart message (tr, fx, c) = (tr @ [?f (state c)], fx', c\<lparr>state := ?f (state c)\<rparr>)"
    by (simp add: catchStart_def setState_apply ct)
  moreover have "traceOk s0 (tr @ [?f (state c)], fx', c\<lparr>state := ?f (state c)\<rparr>)"
    using traceOk_effects [OF t] by simp
  ultimately show ?thesis by (simp add: phaseOk_iff settled_def)
qed

lemma getServices_cases:
  "\<exists>r d. getServices c = (r, d, c\<lparr>deepgramRef := Some d, recorderRef := Some r\<rparr>)"
  by (auto simp: getServices_def Let_def split: option.splits)

lemma startCalled_ok:
  "\<exists>tr fx c'. startCalled env c = (tr, fx, c') \<and> traceOk (state c) (tr, fx, c')
     \<and> isRecording (state c') \<and> connectionState (state c') = connectionState (state c)"
proof -
  let ?f = "\<lambda>prev. prev\<lparr>isRecording := True, error := None, statusMessage := None,
                                    transcript := [], sessionDuration := 0\<rparr>"
  define c1 where "c1 = c\<lparr>state := ?f (state c)\<rparr>"
  have t1: "traceOk (state c) ([?f (state c)], [], c1)"
    using traceOk_setState [of "state c" "[]" "[]" c ?f] traceOk_init [of c]
    by (simp add: setState_apply c1_def)
  obtain fx' where ct: "clearTimer ([?f (state c)], [], c1) = ([?f (state c)], fx', c1)"
    using clearTimer_apply by blast
  define c3 where "c3 = c1\<lparr>startTimeRef := now env, timerIntervalRef := Some (timerId env)\<rparr>"
  obtain r d where gs: "getServices c3 = (r, d, c3\<lparr>deepgramRef := Some d, recorderRef := Some r\<rparr>)"
    using getServices_cases by blast
  obtain fxr r1 where st: "(if mediaStream r \<noteq> None then stop r else ([], r)) = (fxr, r1)"
    by (cases "if mediaStream r \<noteq> None then stop r else ([], r)") auto
  define c5 where "c5 = c3\<lparr>deepgramRef := Some d, recorderRef := Some r1\<rparr>"
  have s5: "state c5 = state c1" by (simp add: c5_def c3_def)
  have "startCalled env c = ([?f (state c)], fx' @ [SetInterval (timerId env)] @ fxr, c5)"
    using ct gs st by (simp add: startCalled_def setState_apply c1_def c3_def c5_def)
  moreover have "traceOk (state c) ([?f (state c)], fx' @ [SetInterval (timerId env)] @ fxr, c5)"
    using traceOk_effects [OF t1 s5] .
  moreover have "isRecording (state c5)" "connectionState (state c5) = connectionState (state c)"
    by (simp_all add: s5 c1_def)
  ultimately show ?thesis by blast
qed

lemma userMediaSettled_ok:
  assumes "isRecording (state c)" and "connectionState (state c) = disconnected"
  shows "phaseOk (state c) (userMediaSettled env c)"
proof -
  obtain r d where gs: "getServices c = (r, d, c\<lparr>deepgramRef := Some d, recorderRef := Some r\<rparr>)"
    using getServices_cases by blast
  define c1 where "c1 = c\<lparr>deepgramRef := Some d, recorderRef := Some r\<rparr>"
  have t1: "traceOk (state c) ([], [], c1)" by (simp add: traceOk_def c1_def)
  have b: "phaseOk (state c) (([], fx, c1\<lparr>recorderRef := x\<rparr>), Some AwaitingResume)" for fx x
    using assms by (simp add: phaseOk_iff traceOk_def c1_def)
  show ?thesis
  proof (cases "captureOutcome env")
    case (GetUserMediaRejected msg)
    then show ?thesis using catchStart_ok [OF t1] gs by (simp add: userMediaSettled_def c1_def)
  next
    case (ResumeRejected strm ctx msg)
    then show ?thesis using b gs by (simp add: userMediaSettled_def c1_def)
  next
    case (CaptureStarted strm ctx rate)
    then show ?thesis using b gs by (simp add: userMediaSettled_def c1_def)
  qed
qed

lemma connectCalled_ok:
  assumes "isRecording (state c)" and "connectionState (state c) = disconnected"
  shows "phaseOk (state c) (connectCalled rate env c)"
proof -
  obtain r d where gs: "getServices c = (r, d, c\<lparr>deepgramRef := Some d, recorderRef := Some r\<rparr>)"
    using getServices_cases by blast
  define c1 where "c1 = c\<lparr>deepgramRef := Some d, recorderRef := Some r\<rparr>"
  have t1: "traceOk (state c) ([], [], c1)" by (simp add: traceOk_def c1_def)
  let ?f = "\<lambda>prev. prev\<lparr>connectionState := connecting\<rparr>"
  define c2 where "c2 = c1\<lparr>state := ?f (state c1)\<rparr>"
  have e: "connectionState (state c1) = connectionState (?f (state c1))
           \<or> codeEdge (connectionState (state c1)) (connectionState (?f (state c1)))"
    using assms(2) by (simp add: c1_def codeEdge_def)
  have t2: "traceOk (state c) ([?f (state c1)], [], c2)"
    using traceOk_setState [of "state c" "[]" "[]" c1 ?f] t1 e by (simp add: setState_apply c2_def)
  have w: "phaseOk (state c) (([?f (state c1)], fx, c2\<lparr>deepgramRef := x\<rparr>),
                              Some (AwaitingHandshake True))" for fx x
    using traceOk_effects [OF t2, of "c2\<lparr>deepgramRef := x\<rparr>" fx] assms(1)
    by (simp add: phaseOk_iff c2_def c1_def)
  note defs = connectCalled_def gs setState_apply c1_def c2_def
  show ?thesis
  proof (cases "isConnected d")
    case True
    then show ?thesis using t1 assms(1) by (simp add: defs phaseOk_iff settled_def)
  next
    case False
    note nc = this
    show ?thesis
    proof (cases "apiKey d = []")
      case True
      then show ?thesis using catchStart_ok [OF t2] nc by (simp add: defs)
    next
      case False
      note key = this
      show ?thesis
      proof (cases "handshakeOutcome env")
        case (ConstructorThrows msg)
        then show ?thesis using catchStart_ok [OF t2] nc key by (simp add: defs)
      next
        case SocketErrors
        then show ?thesis using w nc key by (simp add: defs)
      next
        case SocketOpens
        then show ?thesis using w nc key by (simp add: defs)
      qed
    qed
  qed
qed

lemma resumeSettled_ok:
  assumes "isRecording (state c)" and "connectionState (state c) = disconnected"
  shows "phaseOk (state c) (resumeSettled env c)"
proof -
  obtain r d where gs: "getServices c = (r, d, c\<lparr>deepgramRef := Some d, recorderRef := Some r\<rparr>)"
    using getServices_cases by blast
  define c1 where "c1 = c\<lparr>deepgramRef := Some d, recorderRef := Some r\<rparr>"
  have s1: "state c1 = state c" by (simp add: c1_def)
  have t1: "traceOk (state c) ([], [], c1)" by (simp add: traceOk_def c1_def)
  have cc: "phaseOk (state c) (connectCalled rate env c1)" for rate
    using connectCalled_ok [of c1 rate env] assms by (simp add: s1)
  show ?thesis
  proof (cases "captureOutcome env")
    case (GetUserMediaRejected msg)
    then show ?thesis using catchStart_ok [OF t1] gs by (simp add: resumeSettled_def c1_def)
  next
    case (ResumeRejected strm ctx msg)
    then show ?thesis using catchStart_ok [OF t1] gs by (simp add: resumeSettled_def c1_def)
  next
    case (CaptureStarted strm ctx rate)
    then show ?thesis using catchStart_ok [OF t1] cc [of rate] gs
      by (simp add: resumeSettled_def c1_def)
  qed
qed

lemma handshakeSettled_ok:
  assumes "isRecording (state c)" and "connectionState (state c) = connecting"
  shows "phaseOk (state c) (handshakeSettled env attached c)"
proof -
  obtain r d where gs: "getServices c = (r, d, c\<lparr>deepgramRef := Some d, recorderRef := Some r\<rparr>)"
    using getServices_cases by blast
  define c1 where "c1 = c\<lparr>deepgramRef := Some d, recorderRef := Some r\<rparr>"
  define c2 where "c2 = (\<lambda>st. c1\<lparr>deepgramRef := Some (if attached then d\<lparr>socket := Some st\<rparr> else d)\<rparr>)"
  have s2: "state (c2 st) = state c" for st by (simp add: c2_def c1_def)
  have t2: "traceOk (state c) ([], [], c2 st)" for st by (simp add: traceOk_def s2)
  have failed: "phaseOk (state c)
      (catchStart ''WebSocket connection failed''
         (onError [''WebSocket connection error''] ([], [], c2 CLOSED)), None)"
  proof -
    obtain tr' c' where oe: "onError [''WebSocket connection error''] ([], [], c2 CLOSED) = (tr', [], c')"
      and t': "traceOk (state c) (tr', [], c')"
      using onError_keeps [OF t2, of "[''WebSocket connection error'']" CLOSED] by blast
    show ?thesis using catchStart_ok [OF t'] by (simp only: oe)
  qed
  let ?g = "\<lambda>prev. prev\<lparr>connectionState := connected\<rparr>"
  have opened: "phaseOk (state c) (setState ?g ([], [], c2 OPEN), None)"
  proof -
    have e: "connectionState (state (c2 OPEN)) = connectionState (?g (state (c2 OPEN)))
             \<or> codeEdge (connectionState (state (c2 OPEN))) (connectionState (?g (state (c2 OPEN))))"
      using assms(2) by (simp add: s2 codeEdge_def)
    have "traceOk (state c) (setState ?g ([], [], c2 OPEN))"
      using traceOk_setState [of "state c" "[]" "[]" "c2 OPEN" ?g] t2 e by simp
    then show ?thesis using assms(1) by (simp add: setState_apply phaseOk_iff settled_def s2)
  qed
  note defs = handshakeSettled_def gs
  show ?thesis
  proof (cases "handshakeOutcome env")
    case (ConstructorThrows msg)
    then show ?thesis using failed by (simp add: defs c2_def c1_def)
  next
    case SocketErrors
    then show ?thesis using failed by (simp add: defs c2_def c1_def)
  next
    case SocketOpens
    then show ?thesis using opened by (simp add: defs c2_def c1_def)
  qed
qed

lemma settle_ok:
  assumes "isRecording (state c)" and "connectionState (state c) = stateWhile (waitsFor k)"
  shows "phaseOk (state c) (settle k c)"
proof (cases "waitsFor k")
  case AwaitingUserMedia
  then show ?thesis using userMediaSettled_ok assms by (simp add: settle_def)
next
  case AwaitingResume
  then show ?thesis using resumeSettled_ok assms by (simp add: settle_def)
next
  case (AwaitingHandshake attached)
  then show ?thesis using handshakeSettled_ok assms by (simp add: settle_def)
qed

text \<open>The stop command ends in a state that says \<open>disconnected\<close> and does not record.\<close>

lemma handleStop_ok:
  assumes "settled (state c)"
  shows "\<exists>tr fx c'. handleStop reason clock c = (tr, fx, c') \<and> traceOk (state c) (tr, fx, c')
           \<and> settled (state c')"
proof -
  obtain tr fx c' where h: "handleStop reason clock c = (tr, fx, c')"
    by (cases "handleStop reason clock c")
  from handleStop_state [OF h]
  have tr: "tr = [stopUpdate reason clock (startTimeRef c) (state c)]"
    and st: "state c' = stopUpdate reason clock (startTimeRef c) (state c)" by simp_all
  have cs: "connectionState (state c') =
     (if isRecording (state c) then disconnected else connectionState (state c))"
    and rec: "\<not> isRecording (state c')"
    by (simp_all add: st stopUpdate_def Let_def)
  have "traceOk (state c) (tr, fx, c')"
    using cs tr st by (cases "connectionState (state c)") (auto simp: traceOk_def codeEdge_def)
  moreover have "settled (state c')"
    using assms cs rec by (auto simp: settled_def)
  ultimately show ?thesis using h by simp
qed

text \<open>The other handlers change neither \<open>isRecording\<close> nor the connection state.\<close>

lemma step_keeps:
  assumes "\<not> isStop e"
  shows "traceOk (state c) (step e c)
         \<and> isRecording (state (snd (snd (step e c)))) = isRecording (state c)
         \<and> connectionState (state (snd (snd (step e c)))) = connectionState (state c)"
proof (cases e)
  case (StopRecording clock)
  then show ?thesis using assms by simp
next
  case (TranscriptEvent said isFinal)
  then show ?thesis unfolding traceOk_def
    by (auto simp: onTranscript_def setState_apply transcriptUpdate_def Let_def)
next
  case (Frame inputData dataArray)
  then show ?thesis unfolding traceOk_def
    by (auto simp: frame_def onaudioprocess_def analyzeAudio_def setState_apply Let_def
        split: option.splits prod.splits)
next
  case (Tick t)
  then show ?thesis unfolding traceOk_def by (auto simp: tick_def setState_apply)
next
  case ToggleAutoInsert
  then show ?thesis unfolding traceOk_def by (auto simp: toggleAutoInsert_def setState_apply)
next
  case ClearTranscript
  then show ?thesis unfolding traceOk_def by (auto simp: clearTranscript_def setState_apply)
next
  case SocketCloses
  then show ?thesis unfolding traceOk_def by (auto simp: socketCloses_def split: option.splits)
next
  case SocketFails
  then show ?thesis unfolding traceOk_def by (auto simp: socketFails_def setState_apply)
qed

lemma hookInv_cases:
  assumes "hookInv h"
  obtains (idle) "pending h = []" "settled (state (controller h))"
    | (busy) k where "pending h = [k]" "isRecording (state (controller h))"
        "connectionState (state (controller h)) = stateWhile (waitsFor k)"
proof (cases "pending h")
  case Nil
  then show ?thesis using assms idle by (simp add: hookInv_def Let_def)
next
  case (Cons k ks)
  then show ?thesis using assms busy by (cases ks) (simp_all add: hookInv_def Let_def)
qed

lemma hookInv_keeps:
  assumes "hookInv h"
      and "isRecording (state c') = isRecording (state (controller h))"
      and "connectionState (state c') = connectionState (state (controller h))"
  shows "hookInv \<lparr> controller = c', pending = pending h \<rparr>"
  using assms(1)
proof (cases rule: hookInv_cases)
  case idle
  then show ?thesis using assms(2,3) by (simp add: hookInv_def settled_def)
next
  case (busy k)
  then show ?thesis using assms(2,3) by (simp add: hookInv_def)
qed

text \<open>One action of a calm run keeps the invariant and continues the trace.\<close>

lemma act_ok:
  assumes inv: "hookInv h" and al: "allowed a h"
  shows "\<exists>tr fx h'. act a h = (tr, fx, h') \<and> traceOk (state (controller h)) (tr, fx, controller h')
           \<and> hookInv h'"
proof (cases a)
  case (Begin env)
  have nr: "\<not> isRecording (state (controller h))" using al Begin by simp
  have p: "pending h = []" using inv nr by (cases rule: hookInv_cases) simp_all
  have cs: "connectionState (state (controller h)) = disconnected"
    using inv nr by (cases rule: hookInv_cases) (simp_all add: settled_def)
  obtain tr fx c' where sc: "startCalled env (controller h) = (tr, fx, c')"
    and t: "traceOk (state (controller h)) (tr, fx, c')"
    and rec: "isRecording (state c')"
    and same: "connectionState (state c') = connectionState (state (controller h))"
    using startCalled_ok by blast
  have "hookInv \<lparr> controller = c', pending = [\<lparr> platform = env, waitsFor = AwaitingUserMedia \<rparr>] \<rparr>"
    using rec same cs by (simp add: hookInv_def)
  then show ?thesis using t by (simp add: Begin sc p)
next
  case (Handle e)
  show ?thesis
  proof (cases "isStop e")
    case True
    then obtain clock where e: "e = StopRecording clock" by (cases e) simp_all
    have p: "pending h = []" using al Handle True by simp
    have s: "settled (state (controller h))"
      using inv p by (simp add: hookInv_def)
    obtain tr fx c' where hs: "handleStop None clock (controller h) = (tr, fx, c')"
      and t: "traceOk (state (controller h)) (tr, fx, c')"
      and s': "settled (state c')"
      using handleStop_ok [OF s] by blast
    have "hookInv \<lparr> controller = c', pending = [] \<rparr>" using s' by (simp add: hookInv_def)
    then show ?thesis using t by (simp add: Handle e hs p)
  next
    case False
    obtain tr fx c' where st: "step e (controller h) = (tr, fx, c')"
      by (cases "step e (controller h)")
    from step_keeps [OF False, of "controller h"]
    have t: "traceOk (state (controller h)) (tr, fx, c')"
      and rec: "isRecording (state c') = isRecording (state (controller h))"
      and cs: "connectionState (state c') = connectionState (state (controller h))"
      by (simp_all add: st)
    show ?thesis using t hookInv_keeps [OF inv rec cs] by (simp add: Handle st False)
  qed
next
  case (Settle i)
  from inv show ?thesis
  proof (cases rule: hookInv_cases)
    case idle
    then show ?thesis using inv by (simp add: Settle traceOk_def)
  next
    case (busy k)
    show ?thesis
    proof (cases i)
      case (Suc j)
      then show ?thesis using inv busy by (simp add: Settle traceOk_def)
    next
      case 0
      obtain tr fx c' reached where se: "settle k (controller h) = ((tr, fx, c'), reached)"
        by (cases "settle k (controller h)") auto
      have ok: "phaseOk (state (controller h)) ((tr, fx, c'), reached)"
        using settle_ok [OF busy(2,3)] by (simp add: se)
      then have t: "traceOk (state (controller h)) (tr, fx, c')" by (simp add: phaseOk_iff)
      show ?thesis
      proof (cases reached)
        case None
        then have "hookInv \<lparr> controller = c', pending = [] \<rparr>"
          using ok by (simp add: phaseOk_iff hookInv_def)
        then show ?thesis using t by (simp add: Settle 0 busy(1) se None)
      next
        case (Some w)
        then have "hookInv \<lparr> controller = c', pending = [x\<lparr>waitsFor := w\<rparr>] \<rparr>" for x :: call
          using ok by (simp add: phaseOk_iff hookInv_def)
        then show ?thesis using t by (simp add: Settle 0 busy(1) se Some)
      qed
    qed
  qed
qed

lemma play_ok:
  "traceOk s0 (tr, fx, controller h) \<Longrightarrow> hookInv h \<Longrightarrow> calm acts h \<Longrightarrow>
     \<exists>tr' fx' h'. play acts (tr, fx, h) = (tr', fx', h') \<and> traceOk s0 (tr', fx', controller h')"
proof (induction acts arbitrary: tr fx h)
  case Nil
  then show ?case by simp
next
  case (Cons a acts)
  have al: "allowed a h" and rest: "calm acts (snd (snd (act a h)))"
    using Cons.prems(3) by simp_all
  obtain tr1 fx1 h1 where a: "act a h = (tr1, fx1, h1)"
    and t1: "traceOk (state (controller h)) (tr1, fx1, controller h1)"
    and i1: "hookInv h1"
    using act_ok [OF Cons.prems(2) al] by blast
  have "traceOk s0 (tr @ tr1, fx @ fx1, controller h1)"
    using traceOk_trans [OF Cons.prems(1) t1] .
  from Cons.IH [OF this i1] rest show ?case by (simp add: a)
qed

text \<open>
  Claim C1, as the code has it. In every run from the mounted hook in which
  \<open>startRecording\<close> is called only while the state does not record and the stop command
  is given only while no call of \<open>startRecording\<close> is pending, the connection state
  changes only along \<open>disconnected \<rightarrow> connecting\<close>, \<open>connecting \<rightarrow> connected\<close>,
  \<open>connected \<rightarrow> disconnected\<close> and, when the start fails after the connection attempt
  has begun, \<open>connecting \<rightarrow> disconnected\<close>. The waits of a call may end at any time, and
  frames, ticks, transcripts, closes and errors of the socket and the other commands may
  come at any time, also during the waits.
\<close>

theorem connectionState_edges:
  assumes "calm acts (mounted key)"
  shows "changesAlong codeEdge
           (map connectionState
              (state (usePushToTalk key) # fst (play acts ([], [], mounted key))))"
proof -
  have c: "controller (mounted key) = usePushToTalk key" by (simp add: mounted_def)
  have i: "hookInv (mounted key)"
    by (simp add: hookInv_def mounted_def usePushToTalk_def settled_def)
  have t: "traceOk (state (usePushToTalk key)) ([], [], controller (mounted key))"
    using traceOk_init [of "usePushToTalk key"] by (simp only: c)
  obtain tr fx h' where p: "play acts ([], [], mounted key) = (tr, fx, h')"
    and ok: "traceOk (state (usePushToTalk key)) (tr, fx, controller h')"
    using play_ok [OF t i assms] by blast
  show ?thesis using ok by (simp add: p traceOk_def)
qed

lemma clearTimer_eq:
  "clearTimer (tr, fx, c) =
     (tr, fx @ (case timerIntervalRef c of
                  None \<Rightarrow> []
                | Some i \<Rightarrow> if i = 0 then [] else [ClearInterval i]), c)"
  by (simp add: clearTimer_def split: option.splits)

lemmas call_eval = startCalled_def userMediaSettled_def resumeSettled_def connectCalled_def
  handshakeSettled_def settle_def detach_def setState_apply clearTimer_eq getServices_def
  stop_def isConnected_def catchStart_def Let_def

lemmas play_eval = call_eval mounted_def usePushToTalk_def newDeepgramService_def
  newAudioRecorder_def disconnect_def handleStop_def stopUpdate_def stopClipboard_def
  perform_apply socketCloses_def env_ok_def env_refused_def env_again_def clock_6s_def

lemma rms_pair: "rms [0, 0] = 0"
  by (simp add: rms_def)

lemmas handler_eval = frame_def onaudioprocess_def analyzeAudio_def rms_pair vol_def
  silenceThreshold_eq tick_def onTranscript_def transcriptUpdate_def isClearCommand_def
  toLowerCase_def toLowerCase_char_def trim_def isWhiteSpace_def

lemma ordinaryRun_trace:
  "map connectionState (fst (play ordinaryRun ([], [], mounted ''key''))) =
     [disconnected, connecting, connecting, connecting, connecting, connected, connected,
      disconnected, disconnected, connecting, connecting, disconnected]"
  by (simp add: ordinaryRun_def play_eval handler_eval)

theorem connectionState_edges_witness:
  "calm ordinaryRun (mounted ''key'')
   \<and> map connectionState (fst (play ordinaryRun ([], [], mounted ''key''))) =
       [disconnected, connecting, connecting, connecting, connecting, connected, connected,
        disconnected, disconnected, connecting, connecting, disconnected]
   \<and> changesAlong codeEdge
       (map connectionState
          (state (usePushToTalk ''key'') # fst (play ordinaryRun ([], [], mounted ''key''))))"
proof -
  have h: "calm ordinaryRun (mounted ''key'')"
    by (simp add: ordinaryRun_def play_eval handler_eval)
  from connectionState_edges [OF h] h ordinaryRun_trace show ?thesis by blast
qed

lemma refusedRun_trace:
  "map connectionState (fst (play refusedRun ([], [], mounted ''key''))) =
     [disconnected, connecting, connecting, disconnected]"
  by (simp add: refusedRun_def play_eval)

lemma stoppedWhileConnecting_trace:
  "map connectionState (fst (play stoppedWhileConnecting ([], [], mounted ''key''))) =
     [disconnected, connecting, disconnected, connected]"
  by (simp add: stoppedWhileConnecting_def play_eval)

lemma restartedAfterClose_trace:
  "map connectionState (fst (play restartedAfterClose ([], [], mounted ''key''))) =
     [disconnected, connecting, connected, connected, connecting]"
  by (simp add: restartedAfterClose_def play_eval)

text \<open>
  Three runs. In \<open>refusedRun\<close>, a run of the kind above, the socket reports an error
  during the handshake: the state goes from \<open>connecting\<close> to \<open>disconnected\<close> and was
  never \<open>connected\<close>. In \<open>stoppedWhileConnecting\<close> the stop command comes while the call
  waits for the handshake; \<open>disconnect\<close> forgets the socket without closing it, the socket
  opens, and the state goes from \<open>disconnected\<close> to \<open>connected\<close>. In
  \<open>restartedAfterClose\<close> the socket has been closed by the peer and \<open>startRecording\<close> is
  called while the state records: the state goes from \<open>connected\<close> to \<open>connecting\<close>.
\<close>

theorem connectionState_edges_counterexample:
  "calm refusedRun (mounted ''key'')
   \<and> map connectionState (fst (play refusedRun ([], [], mounted ''key''))) =
       [disconnected, connecting, connecting, disconnected]
   \<and> \<not> changesAlong specEdge
         (map connectionState
            (state (usePushToTalk ''key'') # fst (play refusedRun ([], [], mounted ''key''))))
   \<and> map connectionState (fst (play stoppedWhileConnecting ([], [], mounted ''key''))) =
       [disconnected, connecting, disconnected, connected]
   \<and> \<not> changesAlong codeEdge
         (map connectionState
            (state (usePushToTalk ''key'') #
             fst (play stoppedWhileConnecting ([], [], mounted ''key''))))
   \<and> map connectionState (fst (play restartedAfterClose ([], [], mounted ''key''))) =
       [disconnected, connecting, connected, connected, connecting]
   \<and> \<not> changesAlong codeEdge
         (map connectionState
            (state (usePushToTalk ''key'') #
             fst (play restartedAfterClose ([], [], mounted ''key''))))"
proof -
  have "calm refusedRun (mounted ''key'')"
    by (simp add: refusedRun_def play_eval)
  moreover have "connectionState (state (usePushToTalk ''key'')) = disconnected"
    by (simp add: usePushToTalk_def)
  ultimately show ?thesis
    by (simp add: refusedRun_trace stoppedWhileConnecting_trace restartedAfterClose_trace
        codeEdge_def)
qed

text \<open>
  \<open>startRecording\<close> of the controller section is the call whose three waits end one after
  the other, with nothing run in between.
\<close>

lemma startRecording_play:
  "play [Begin env, Settle 0, Settle 0, Settle 0] ([], [], \<lparr> controller = c, pending = [] \<rparr>) =
     (case startRecording env c of
        (tr, fx, c') \<Rightarrow> (tr, fx, \<lparr> controller = c', pending = [] \<rparr>))"
  by (cases "captureOutcome env"; cases "handshakeOutcome env")
     (simp_all add: call_eval startRecording_def tryStart_def start_def connect_def)

end
